theory Spec2Isabelle
  imports Main "HOL-Library.Sublist"
begin

section \<open>The pipeline driver of main.py\<close>

text \<open>
  The repository is one Python file: the list \<^verbatim>\<open>_steps\<close> and the function
  \<^verbatim>\<open>go(config)\<close>. The function sets two environment variables, chooses the active
  steps, opens a temporary directory and runs six conditional blocks in a fixed order,
  each of which evaluates the arguments of one \<^verbatim>\<open>mlflow.run\<close> call and makes the call.

  What the function touches outside its own variables is kept in an explicit \<open>world\<close>:
  the process environment, the working directory of the process, the directories and
  files of the file system, and a log of the effects in the order they happen. The
  collaborators that are not part of the repository are parameters of the model: the
  step executor behind \<^verbatim>\<open>mlflow.run\<close>, the name \<^verbatim>\<open>tempfile\<close> picks for the directory,
  and the conversions \<^verbatim>\<open>str\<close>, \<^verbatim>\<open>int\<close> and \<^verbatim>\<open>float\<close>. Every exception is a value
  \<open>Inl e\<close>.
\<close>

subsection \<open>Configuration values\<close>

text \<open>
  A configuration is a nested dictionary with scalar leaves. A dictionary is an
  association list, since \<^verbatim>\<open>items()\<close> yields the entries in order; its keys are
  distinct, as those of a dictionary are. \<open>VList\<close> and \<open>VDict\<close> stand for the list and
  dictionary nodes of the configuration object. A string is the sequence of its bytes.
  A float is kept as the pair (mantissa, exponent) of the binary number it stands for;
  no arithmetic is done on it here.
\<close>

type_synonym pyfloat = "int \<times> int"

datatype cval =
    VNone
  | VBool bool
  | VInt int
  | VFloat pyfloat
  | VStr string
  | VList "cval list"
  | VDict "(string \<times> cval) list"

datatype error =
    KeyError string
  | TypeError
  | AttributeError
  | ValueError
  | ExecutionException string

definition ebind :: "error + 'a \<Rightarrow> ('a \<Rightarrow> error + 'b) \<Rightarrow> error + 'b" where
  "ebind m f = (case m of Inl e \<Rightarrow> Inl e | Inr x \<Rightarrow> f x)"

text \<open>\<^verbatim>\<open>c[k]\<close>: a missing key raises KeyError, a value that is no dictionary TypeError.\<close>

fun subscript :: "cval \<Rightarrow> string \<Rightarrow> error + cval" where
  "subscript (VDict kvs) k = (case map_of kvs k of None \<Rightarrow> Inl (KeyError k) | Some v \<Rightarrow> Inr v)"
| "subscript _ k = Inl TypeError"

text \<open>\<^verbatim>\<open>config[a][b]\<close>.\<close>

definition cfg2 :: "cval \<Rightarrow> string \<Rightarrow> string \<Rightarrow> error + cval" where
  "cfg2 config a b = ebind (subscript config a) (\<lambda>section. subscript section b)"

text \<open>\<^verbatim>\<open>d.items()\<close>: only a dictionary has the attribute.\<close>

fun items :: "cval \<Rightarrow> error + (string \<times> cval) list" where
  "items (VDict kvs) = Inr kvs"
| "items _ = Inl AttributeError"

text \<open>
  The conversions of Python that \<^verbatim>\<open>go\<close> applies to configuration values. They are
  parameters: \<^verbatim>\<open>int\<close> and \<^verbatim>\<open>float\<close> may raise, \<^verbatim>\<open>str\<close> (also behind an f-string) does not.
\<close>

record builtins =
  py_str :: "cval \<Rightarrow> string"
  py_int :: "cval \<Rightarrow> error + int"
  py_float :: "cval \<Rightarrow> error + pyfloat"

text \<open>\<^verbatim>\<open>s.split(sep)\<close> with a separator of one character.\<close>

fun str_split :: "char \<Rightarrow> string \<Rightarrow> string list" where
  "str_split sep [] = [[]]"
| "str_split sep (c # cs) =
     (if c = sep then [] # str_split sep cs
      else (case str_split sep cs of [] \<Rightarrow> [[c]] | t # ts \<Rightarrow> (c # t) # ts))"

subsection \<open>The step registry\<close>

text \<open>
  \<^verbatim>\<open>_steps\<close> (an Isabelle name cannot start with an underscore). The source lists
  six strings; the last one stands under a comment saying that it is not included, but
  it is an element of the list.
\<close>

definition steps :: "string list" where
  "steps = [''download'', ''basic_cleaning'', ''data_check'', ''train_val_test_split'',
     ''train_random_forest'', ''test_regression_model'']"

text \<open>
  \<^verbatim>\<open>steps_par.split(",") if steps_par != "all" else _steps\<close>. A value that is no string
  differs from \<^verbatim>\<open>"all"\<close> and has no \<^verbatim>\<open>split\<close>.
\<close>

fun active_steps :: "cval \<Rightarrow> error + string list" where
  "active_steps (VStr steps_par) =
     Inr (if steps_par \<noteq> ''all'' then str_split (CHR '','') steps_par else steps)"
| "active_steps _ = Inl AttributeError"

subsection \<open>The world and its effects\<close>

record call =
  uri :: string
  entry_point :: string
  env_manager :: string
  parameters :: "(string \<times> cval) list"

datatype outcome = Success | Failure string

text \<open>
  What a file holds: nothing, a JSON object, or the text of an object that breaks off
  after the given entries and the key of the next one.
\<close>

datatype content = Empty | Json "(string \<times> cval) list" | Partial "(string \<times> cval) list" string

text \<open>
  The effects the log records. \<open>Exec name c r\<close> is one call of the executor; \<open>name\<close>
  is the registry name tested by the \<^verbatim>\<open>if\<close> the call stands under (the call itself
  carries only a location), \<open>r\<close> what the executor answered.
\<close>

datatype event =
    SetEnv string string
  | MkDTemp string
  | Wrote string content
  | Exec string call outcome
  | Cleanup string

record world =
  environ :: "string \<rightharpoonup> string"
  cwd :: string
  dirs :: "string set"
  files :: "string \<rightharpoonup> content"
  log :: "event list"

type_synonym 'a action = "world \<Rightarrow> (error + 'a) \<times> world"

type_synonym executor = "world \<Rightarrow> call \<Rightarrow> outcome"

definition lift :: "error + 'a \<Rightarrow> 'a action" where
  "lift r w = (r, w)"

definition bind :: "'a action \<Rightarrow> ('a \<Rightarrow> 'b action) \<Rightarrow> 'b action" where
  "bind m f w = (case m w of (Inl e, w') \<Rightarrow> (Inl e, w') | (Inr x, w') \<Rightarrow> f x w')"

text \<open>One statement after another: an exception of the first skips the second.\<close>

definition seq :: "unit action \<Rightarrow> unit action \<Rightarrow> unit action" where
  "seq m k = bind m (\<lambda>_. k)"

text \<open>\<^verbatim>\<open>if b: ...\<close> with no else.\<close>

definition py_if :: "bool \<Rightarrow> unit action \<Rightarrow> unit action" where
  "py_if b m = (if b then m else lift (Inr ()))"

text \<open>
  \<^verbatim>\<open>os.environ[k] = v\<close>: the value must be a string (TypeError otherwise) without a
  null byte (ValueError otherwise); when it raises, nothing is set. The two keys that
  \<^verbatim>\<open>go\<close> uses are constants that the environment accepts.
\<close>

fun setenv :: "string \<Rightarrow> cval \<Rightarrow> unit action" where
  "setenv k (VStr s) w =
     (if CHR 0x00 \<in> set s then (Inl ValueError, w)
      else (Inr (), w\<lparr>environ := (environ w)(k \<mapsto> s), log := log w @ [SetEnv k s]\<rparr>))"
| "setenv k _ w = (Inl TypeError, w)"

text \<open>
  \<^verbatim>\<open>os.path.abspath(p)\<close> for a relative \<open>p\<close> without \<^verbatim>\<open>.\<close> or \<^verbatim>\<open>..\<close>: the working
  directory of the process joined with \<open>p\<close>, as \<^verbatim>\<open>os.path.join\<close> joins them.
\<close>

definition path_join :: "string \<Rightarrow> string \<Rightarrow> string" where
  "path_join a b = (if a = [] \<or> last a = CHR ''/'' then a @ b else a @ ''/'' @ b)"

definition abspath :: "world \<Rightarrow> string \<Rightarrow> string" where
  "abspath w p = path_join (cwd w) p"

text \<open>
  \<^verbatim>\<open>open(p, "w+")\<close> creates or truncates the file. \<^verbatim>\<open>json.dump\<close> writes the entries of
  the dictionary one after the other: scalars are written as they are, and at the first
  value that is a list or dictionary node of the configuration it raises TypeError,
  leaving in the file what it has written so far.
\<close>

fun json_scalar :: "cval \<Rightarrow> bool" where
  "json_scalar (VList _) = False"
| "json_scalar (VDict _) = False"
| "json_scalar _ = True"

definition open_w :: "string \<Rightarrow> world \<Rightarrow> world" where
  "open_w p w = w\<lparr>files := (files w)(p \<mapsto> Empty), log := log w @ [Wrote p Empty]\<rparr>"

definition json_dump :: "(string \<times> cval) list \<Rightarrow> string \<Rightarrow> unit action" where
  "json_dump kvs p w =
     (case dropWhile (\<lambda>(k, v). json_scalar v) kvs of
        [] \<Rightarrow>
          (Inr (), w\<lparr>files := (files w)(p \<mapsto> Json kvs), log := log w @ [Wrote p (Json kvs)]\<rparr>)
      | (k, v) # _ \<Rightarrow>
          (let c = Partial (takeWhile (\<lambda>(k, v). json_scalar v) kvs) k
           in (Inl TypeError, w\<lparr>files := (files w)(p \<mapsto> c), log := log w @ [Wrote p c]\<rparr>)))"

text \<open>
  \<^verbatim>\<open>mlflow.run\<close> is synchronous: it returns when the step has succeeded and raises
  when it has failed. The executor answers from the world and the call; what the step
  does to the artifact store is outside this model.
\<close>

definition mlflow_run :: "executor \<Rightarrow> string \<Rightarrow> call \<Rightarrow> unit action" where
  "mlflow_run ex name c w =
     (let r = ex w c; w' = w\<lparr>log := log w @ [Exec name c r]\<rparr>
      in case r of Success \<Rightarrow> (Inr (), w') | Failure m \<Rightarrow> (Inl (ExecutionException m), w'))"

text \<open>The arguments are evaluated first; an exception there means no call.\<close>

definition run_step :: "executor \<Rightarrow> string \<Rightarrow> error + call \<Rightarrow> unit action" where
  "run_step ex name args w =
     (case args of Inl e \<Rightarrow> (Inl e, w) | Inr c \<Rightarrow> mlflow_run ex name c w)"

subsection \<open>The temporary directory\<close>

text \<open>
  \<^verbatim>\<open>with tempfile.TemporaryDirectory() as tmp_dir\<close>: the directory is made on entry,
  and \<^verbatim>\<open>cleanup\<close> removes it with all below it on exit, whether the body returned or
  raised; the exception of the body is raised again. \<open>tmp_dir\<close> is the name that
  \<^verbatim>\<open>tempfile\<close> picks. \<^verbatim>\<open>cleanup\<close> does nothing to a directory that is gone.
\<close>

definition under :: "string \<Rightarrow> string \<Rightarrow> bool" where
  "under d p \<longleftrightarrow> p = d \<or> prefix (d @ ''/'') p"

definition mkdtemp :: "string \<Rightarrow> world \<Rightarrow> world" where
  "mkdtemp tmp_dir w = w\<lparr>dirs := insert tmp_dir (dirs w), log := log w @ [MkDTemp tmp_dir]\<rparr>"

definition rmtree :: "string \<Rightarrow> world \<Rightarrow> world" where
  "rmtree d w =
     w\<lparr>dirs := Set.filter (\<lambda>p. \<not> under d p) (dirs w),
       files := (\<lambda>p. if under d p then None else files w p)\<rparr>"

definition cleanup :: "string \<Rightarrow> unit action" where
  "cleanup tmp_dir w =
     (let w' = (if tmp_dir \<in> dirs w then rmtree tmp_dir w else w)
      in (Inr (), w'\<lparr>log := log w' @ [Cleanup tmp_dir]\<rparr>))"

definition with_tmpdir :: "string \<Rightarrow> unit action \<Rightarrow> unit action" where
  "with_tmpdir tmp_dir body w =
     (case body (mkdtemp tmp_dir w) of (r, w') \<Rightarrow> (r, snd (cleanup tmp_dir w')))"

subsection \<open>The arguments of the six calls\<close>

text \<open>
  Each definition evaluates what the source evaluates for one \<^verbatim>\<open>mlflow.run\<close> call, in
  the source's order: the location, then the entries of the parameter dictionary from
  top to bottom.
\<close>

definition download_args :: "builtins \<Rightarrow> cval \<Rightarrow> error + call" where
  "download_args B config =
     ebind (cfg2 config ''main'' ''components_repository'') (\<lambda>repo.
     ebind (cfg2 config ''etl'' ''sample'') (\<lambda>sample.
     Inr \<lparr>uri = py_str B repo @ ''/get_data'', entry_point = ''main'', env_manager = ''conda'',
          parameters = [
            (''sample'', sample),
            (''artifact_name'', VStr ''sample.csv''),
            (''artifact_type'', VStr ''raw_data''),
            (''artifact_description'', VStr ''Raw file as downloaded'')]\<rparr>))"

definition basic_cleaning_args :: "builtins \<Rightarrow> cval \<Rightarrow> error + call" where
  "basic_cleaning_args B config =
     ebind (cfg2 config ''main'' ''components_repository'') (\<lambda>repo.
     ebind (cfg2 config ''data'' ''raw_artifact'') (\<lambda>raw_artifact.
     Inr \<lparr>uri = py_str B repo @ ''/basic_cleaning'', entry_point = ''main'', env_manager = ''conda'',
          parameters = [
            (''input_artifact'', raw_artifact),
            (''output_artifact'', VStr ''clean_data.csv''),
            (''output_type'', VStr ''clean_data''),
            (''output_description'', VStr ''Cleaned dataset after basic preprocessing'')]\<rparr>))"

definition data_check_args :: "builtins \<Rightarrow> cval \<Rightarrow> error + call" where
  "data_check_args B config =
     ebind (cfg2 config ''main'' ''components_repository'') (\<lambda>repo.
     ebind (cfg2 config ''data_check'' ''kl_threshold'') (\<lambda>kl_threshold.
     ebind (cfg2 config ''etl'' ''min_price'') (\<lambda>min_price.
     ebind (cfg2 config ''etl'' ''max_price'') (\<lambda>max_price.
     Inr \<lparr>uri = py_str B repo @ ''/data_check'', entry_point = ''main'', env_manager = ''conda'',
          parameters = [
            (''csv'', VStr ''clean_sample.csv:latest''),
            (''ref'', VStr ''clean_sample.csv:reference''),
            (''kl_threshold'', kl_threshold),
            (''min_price'', min_price),
            (''max_price'', max_price)]\<rparr>))))"

definition train_val_test_split_args :: "builtins \<Rightarrow> cval \<Rightarrow> error + call" where
  "train_val_test_split_args B config =
     ebind (cfg2 config ''main'' ''components_repository'') (\<lambda>repo.
     ebind (cfg2 config ''modeling'' ''test_size'') (\<lambda>test_size.
     ebind (cfg2 config ''modeling'' ''random_seed'') (\<lambda>random_seed.
     ebind (cfg2 config ''modeling'' ''stratify_by'') (\<lambda>stratify_by.
     Inr \<lparr>uri = py_str B repo @ ''/train_val_test_split'', entry_point = ''main'',
          env_manager = ''conda'',
          parameters = [
            (''input'', VStr ''clean_sample.csv:latest''),
            (''test_size'', VStr (py_str B test_size)),
            (''random_seed'', VStr (py_str B random_seed)),
            (''stratify_by'', VStr (py_str B stratify_by))]\<rparr>))))"

definition train_random_forest_args :: "builtins \<Rightarrow> cval \<Rightarrow> string \<Rightarrow> error + call" where
  "train_random_forest_args B config rf_config =
     ebind (cfg2 config ''modeling'' ''val_size'') (\<lambda>val_size.
     ebind (py_float B val_size) (\<lambda>val_size_f.
     ebind (cfg2 config ''modeling'' ''random_seed'') (\<lambda>random_seed.
     ebind (py_int B random_seed) (\<lambda>random_seed_i.
     ebind (cfg2 config ''modeling'' ''stratify_by'') (\<lambda>stratify_by.
     ebind (cfg2 config ''modeling'' ''max_tfidf_features'') (\<lambda>max_tfidf_features.
     ebind (py_int B max_tfidf_features) (\<lambda>max_tfidf_features_i.
     Inr \<lparr>uri = ''src/train_random_forest'', entry_point = ''main'', env_manager = ''conda'',
          parameters = [
            (''trainval_artifact'', VStr ''trainval_data.csv:latest''),
            (''val_size'', VFloat val_size_f),
            (''random_seed'', VInt random_seed_i),
            (''stratify_by'', VStr (py_str B stratify_by)),
            (''max_tfidf_features'', VInt max_tfidf_features_i),
            (''rf_config'', VStr rf_config),
            (''output_artifact'', VStr ''random_forest_export'')]\<rparr>)))))))"

definition test_regression_model_args :: "error + call" where
  "test_regression_model_args =
     Inr \<lparr>uri = ''components/test_regression_model'', entry_point = ''main'',
          env_manager = ''conda'',
          parameters = [
            (''mlflow_model'', VStr ''random_forest_export:prod''),
            (''test_dataset'', VStr ''test_data.csv:latest'')]\<rparr>"

subsection \<open>The body of the with statement and the function go\<close>

text \<open>
  The training block writes \<^verbatim>\<open>rf_config.json\<close> before its call: the path is
  \<^verbatim>\<open>os.path.abspath("rf_config.json")\<close>, taken from the working directory of the
  process (the source never changes it and never uses \<^verbatim>\<open>tmp_dir\<close>); \<^verbatim>\<open>open\<close> comes
  before the dictionary to dump is looked up, and an exception of the lookup or of
  \<^verbatim>\<open>json.dump\<close> means no call.
\<close>

definition train_random_forest_block :: "builtins \<Rightarrow> executor \<Rightarrow> cval \<Rightarrow> unit action" where
  "train_random_forest_block B ex config w =
     (let rf_config = abspath w ''rf_config.json'';
          w1 = open_w rf_config w
      in case ebind (cfg2 config ''modeling'' ''random_forest'') items of
           Inl e \<Rightarrow> (Inl e, w1)
         | Inr kvs \<Rightarrow>
             seq (json_dump kvs rf_config)
               (run_step ex ''train_random_forest'' (train_random_forest_args B config rf_config))
               w1)"

definition pipeline_body :: "builtins \<Rightarrow> executor \<Rightarrow> cval \<Rightarrow> string list \<Rightarrow> unit action" where
  "pipeline_body B ex config active =
     seq (py_if (''download'' \<in> set active)
            (run_step ex ''download'' (download_args B config)))
    (seq (py_if (''basic_cleaning'' \<in> set active)
            (run_step ex ''basic_cleaning'' (basic_cleaning_args B config)))
    (seq (py_if (''data_check'' \<in> set active)
            (run_step ex ''data_check'' (data_check_args B config)))
    (seq (py_if (''train_val_test_split'' \<in> set active)
            (run_step ex ''train_val_test_split'' (train_val_test_split_args B config)))
    (seq (py_if (''train_random_forest'' \<in> set active)
            (train_random_forest_block B ex config))
         (py_if (''test_regression_model'' \<in> set active)
            (run_step ex ''test_regression_model'' test_regression_model_args))))))"

definition go :: "builtins \<Rightarrow> executor \<Rightarrow> string \<Rightarrow> cval \<Rightarrow> unit action" where
  "go B ex tmp_dir config =
     bind (lift (cfg2 config ''main'' ''project_name'')) (\<lambda>project_name.
     bind (setenv ''WANDB_PROJECT'' project_name) (\<lambda>_.
     bind (lift (cfg2 config ''main'' ''experiment_name'')) (\<lambda>experiment_name.
     bind (setenv ''WANDB_RUN_GROUP'' experiment_name) (\<lambda>_.
     bind (lift (cfg2 config ''main'' ''steps'')) (\<lambda>steps_par.
     bind (lift (active_steps steps_par)) (\<lambda>active.
     with_tmpdir tmp_dir (pipeline_body B ex config active)))))))"

section \<open>Reading a run\<close>

subsection \<open>What the log says\<close>

text \<open>
  The executor calls of a log, each with the name of its block, the call and the
  answer; and the events of the temporary directory.
\<close>

fun execs :: "event list \<Rightarrow> (string \<times> call \<times> outcome) list" where
  "execs [] = []"
| "execs (Exec n c r # es) = (n, c, r) # execs es"
| "execs (_ # es) = execs es"

fun scope_events :: "event list \<Rightarrow> event list" where
  "scope_events [] = []"
| "scope_events (MkDTemp d # es) = MkDTemp d # scope_events es"
| "scope_events (Cleanup d # es) = Cleanup d # scope_events es"
| "scope_events (_ # es) = scope_events es"

text \<open>
  The events of one run are those its final log has beyond the log it started with.
  \<open>invoked\<close> names the steps whose executor the run called, in the order of the calls.
\<close>

definition trace_of :: "world \<Rightarrow> world \<Rightarrow> event list" where
  "trace_of w w' = drop (length (log w)) (log w')"

definition invoked :: "world \<Rightarrow> world \<Rightarrow> string list" where
  "invoked w w' = map fst (execs (trace_of w w'))"

text \<open>
  The parameter mappings a run passed to the executor, step by step, and the same
  with the entry \<^verbatim>\<open>rf_config\<close> (the one parameter that is a path) left out.
\<close>

definition passed_parameters :: "world \<Rightarrow> world \<Rightarrow> (string \<times> (string \<times> cval) list) list" where
  "passed_parameters w w' = map (\<lambda>(n, c, out). (n, parameters c)) (execs (trace_of w w'))"

definition without_rf_config ::
    "(string \<times> (string \<times> cval) list) list \<Rightarrow> (string \<times> (string \<times> cval) list) list" where
  "without_rf_config ps = map (\<lambda>(n, kvs). (n, filter (\<lambda>(k, v). k \<noteq> ''rf_config'') kvs)) ps"

text \<open>
  \<^verbatim>\<open>sep.join(ts)\<close>, by which a list of tokens is read back as one string.
\<close>

fun str_join :: "string \<Rightarrow> string list \<Rightarrow> string" where
  "str_join sep [] = []"
| "str_join sep [t] = t"
| "str_join sep (t # ts) = t @ sep @ str_join sep ts"

text \<open>
  The resolved active set of a configuration: the registry steps that the blocks of
  \<^verbatim>\<open>go\<close> find in \<^verbatim>\<open>active_steps\<close>, in the order of the blocks. It is empty when the
  selection cannot be read.
\<close>

definition resolved :: "cval \<Rightarrow> string list" where
  "resolved config =
     (case ebind (cfg2 config ''main'' ''steps'') active_steps of
        Inl e \<Rightarrow> []
      | Inr active \<Rightarrow> filter (\<lambda>n. n \<in> set active) steps)"

text \<open>
  \<open>enters_scope\<close>: the statements before the \<^verbatim>\<open>with\<close> raise nothing, so that the run
  gets to the temporary directory: both names are there and are strings without a null
  byte, and the selection can be read. \<open>entered\<close> is the world at that point.
\<close>

definition enters_scope :: "cval \<Rightarrow> bool" where
  "enters_scope config \<longleftrightarrow>
     (case cfg2 config ''main'' ''project_name'' of
        Inr (VStr p) \<Rightarrow>
          CHR 0x00 \<notin> set p \<and>
          (case cfg2 config ''main'' ''experiment_name'' of
             Inr (VStr g) \<Rightarrow>
               CHR 0x00 \<notin> set g \<and> \<not> isl (ebind (cfg2 config ''main'' ''steps'') active_steps)
           | _ \<Rightarrow> False)
      | _ \<Rightarrow> False)"

text \<open>
  \<open>binding config key\<close>: the string that \<^verbatim>\<open>os.environ[...] = config["main"][key]\<close>
  sets, or \<open>None\<close> when the lookup or the assignment raises.
\<close>

definition binding :: "cval \<Rightarrow> string \<Rightarrow> string option" where
  "binding config key =
     (case cfg2 config ''main'' key of
        Inr (VStr s) \<Rightarrow> (if CHR 0x00 \<in> set s then None else Some s)
      | _ \<Rightarrow> None)"

definition entered :: "world \<Rightarrow> string \<Rightarrow> string \<Rightarrow> world" where
  "entered w p g =
     w\<lparr>environ := (environ w)(''WANDB_PROJECT'' \<mapsto> p, ''WANDB_RUN_GROUP'' \<mapsto> g),
       log := log w @ [SetEnv ''WANDB_PROJECT'' p, SetEnv ''WANDB_RUN_GROUP'' g]\<rparr>"

subsection \<open>The blocks as a table\<close>

text \<open>
  The six blocks have one form: test the name, evaluate the arguments, call. \<open>args_of\<close>
  gives the arguments by name and \<open>block\<close> the block by name, and \<open>run_blocks\<close> runs
  the blocks of a list of names in order. \<open>pipeline_body\<close> is \<open>run_blocks\<close> on the
  registry (lemma \<open>pipeline_body_blocks\<close>).
\<close>

definition args_of :: "builtins \<Rightarrow> cval \<Rightarrow> string \<Rightarrow> string \<Rightarrow> error + call" where
  "args_of B config rf_config name =
     (if name = ''download'' then download_args B config
      else if name = ''basic_cleaning'' then basic_cleaning_args B config
      else if name = ''data_check'' then data_check_args B config
      else if name = ''train_val_test_split'' then train_val_test_split_args B config
      else if name = ''train_random_forest'' then train_random_forest_args B config rf_config
      else test_regression_model_args)"

definition block :: "builtins \<Rightarrow> executor \<Rightarrow> cval \<Rightarrow> string \<Rightarrow> unit action" where
  "block B ex config name =
     (if name = ''train_random_forest'' then train_random_forest_block B ex config
      else run_step ex name (args_of B config [] name))"

fun run_blocks :: "(string \<Rightarrow> unit action) \<Rightarrow> string list \<Rightarrow> string list \<Rightarrow> unit action" where
  "run_blocks blk active [] = lift (Inr ())"
| "run_blocks blk active (n # ns) = seq (py_if (n \<in> set active) (blk n)) (run_blocks blk active ns)"

text \<open>
  \<open>ready\<close>: nothing raises while the block of a step gets to its call: the arguments
  evaluate, and for the training block the dictionary of hyperparameters is there and
  \<^verbatim>\<open>json.dump\<close> can write every value of it.
\<close>

definition ready :: "builtins \<Rightarrow> cval \<Rightarrow> string \<Rightarrow> string \<Rightarrow> bool" where
  "ready B config rf_config name \<longleftrightarrow>
     \<not> isl (args_of B config rf_config name)
     \<and> (name = ''train_random_forest''
          \<longrightarrow> (case ebind (cfg2 config ''modeling'' ''random_forest'') items of
                 Inl e \<Rightarrow> False
               | Inr kvs \<Rightarrow> list_all (\<lambda>(k, v). json_scalar v) kvs))"

text \<open>
  The form of a run over the names \<open>ns\<close>: the executor calls \<open>xs\<close> follow \<open>ns\<close>; a call
  that succeeds is followed by the rest of the run, a call that fails ends it with the
  executor's exception, and any other exception ends it with no further call. \<open>P\<close>
  holds of every name and call.
\<close>

inductive run_shape :: "(string \<Rightarrow> call \<Rightarrow> bool) \<Rightarrow> string list \<Rightarrow> error + unit
    \<Rightarrow> (string \<times> call \<times> outcome) list \<Rightarrow> bool" for P where
  finished: "run_shape P [] (Inr ()) []"
| raised: "run_shape P ns (Inl e) []"
| failed: "P n c \<Longrightarrow> run_shape P (n # ns) (Inl (ExecutionException m)) [(n, c, Failure m)]"
| passed: "P n c \<Longrightarrow> run_shape P ns r xs \<Longrightarrow> run_shape P (n # ns) r ((n, c, Success) # xs)"

text \<open>What the body of the with statement leaves as it is.\<close>

definition same_frame :: "world \<Rightarrow> world \<Rightarrow> bool" where
  "same_frame w w' \<longleftrightarrow> environ w' = environ w \<and> cwd w' = cwd w \<and> dirs w' = dirs w"

section \<open>An example configuration\<close>

text \<open>
  A configuration with every key that \<^verbatim>\<open>go\<close> reads, for a given value of
  \<^verbatim>\<open>main.steps\<close>; the world of a process started in \<^verbatim>\<open>/home/u/proj\<close> with an empty
  environment; conversions that are Python's on the values of this configuration
  (\<^verbatim>\<open>str(42)\<close> is \<^verbatim>\<open>"42"\<close>, \<^verbatim>\<open>str(0.25)\<close> is \<^verbatim>\<open>"0.25"\<close>, \<^verbatim>\<open>str\<close> of a string, \<^verbatim>\<open>int\<close> of an
  int and \<^verbatim>\<open>float\<close> of a float are the value itself); an executor under which every
  step succeeds, and one under which the step at a given location fails.
\<close>

definition example_builtins :: builtins where
  "example_builtins = \<lparr>
     py_str = (\<lambda>v. case v of
         VStr s \<Rightarrow> s
       | VInt n \<Rightarrow> (if n = 42 then ''42'' else [])
       | VFloat f \<Rightarrow> (if f = (1, - 2) then ''0.25'' else [])
       | _ \<Rightarrow> []),
     py_int = (\<lambda>v. case v of VInt n \<Rightarrow> Inr n | _ \<Rightarrow> Inl ValueError),
     py_float = (\<lambda>v. case v of VFloat f \<Rightarrow> Inr f | _ \<Rightarrow> Inl ValueError)\<rparr>"

definition example_config :: "string \<Rightarrow> cval" where
  "example_config steps_par = VDict [
     (''main'', VDict [
        (''components_repository'', VStr ''https://example.org/repo#components''),
        (''project_name'', VStr ''nyc_airbnb''),
        (''experiment_name'', VStr ''development''),
        (''steps'', VStr steps_par)]),
     (''etl'', VDict [
        (''sample'', VStr ''sample1.csv''),
        (''min_price'', VInt 10),
        (''max_price'', VInt 350)]),
     (''data'', VDict [(''raw_artifact'', VStr ''sample.csv:latest'')]),
     (''data_check'', VDict [(''kl_threshold'', VFloat (1, - 2))]),
     (''modeling'', VDict [
        (''test_size'', VFloat (1, - 2)),
        (''val_size'', VFloat (1, - 2)),
        (''random_seed'', VInt 42),
        (''stratify_by'', VStr ''neighbourhood_group''),
        (''max_tfidf_features'', VInt 5),
        (''random_forest'', VDict [(''n_estimators'', VInt 100), (''max_depth'', VInt 15)])])]"

definition example_world :: world where
  "example_world = \<lparr>environ = Map.empty, cwd = ''/home/u/proj'',
     dirs = {''/home/u/proj'', ''/tmp''}, files = Map.empty, log = []\<rparr>"

definition ex_ok :: executor where
  "ex_ok w c = Success"

definition ex_fail_at :: "string \<Rightarrow> executor" where
  "ex_fail_at u w c = (if uri c = u then Failure ''step failed'' else Success)"

section \<open>Properties of the model\<close>

subsection \<open>Logs and sequencing\<close>

lemma execs_append: "execs (es @ fs) = execs es @ execs fs"
  by (induction es rule: execs.induct) simp_all

lemma scope_events_append: "scope_events (es @ fs) = scope_events es @ scope_events fs"
  by (induction es rule: scope_events.induct) simp_all

lemma not_isl: "\<not> isl x \<longleftrightarrow> (\<exists>c. x = Inr c)"
  by (cases x) simp_all

lemma seq_Inl: "m w = (Inl e, w') \<Longrightarrow> seq m k w = (Inl e, w')"
  by (simp add: seq_def bind_def)

lemma seq_Inr: "m w = (Inr u, w') \<Longrightarrow> seq m k w = k w'"
  by (simp add: seq_def bind_def)

lemma seq_skip: "seq m (lift (Inr ())) = m"
  by (rule ext) (auto simp: seq_def bind_def lift_def split: prod.splits sum.splits)

lemma pipeline_body_blocks:
  "pipeline_body B ex config active = run_blocks (block B ex config) active steps"
  by (simp add: pipeline_body_def steps_def block_def args_of_def seq_skip)

subsection \<open>Consequences of the form of a run\<close>

lemma shape_prefix: "run_shape P ns r xs \<Longrightarrow> prefix (map fst xs) ns"
  by (induction rule: run_shape.induct) simp_all

lemma shape_complete:
  "run_shape P ns r xs \<Longrightarrow> r = Inr () \<Longrightarrow> map fst xs = ns \<and> (\<forall>x \<in> set xs. snd (snd x) = Success)"
  by (induction rule: run_shape.induct) simp_all

lemma shape_failure:
  "run_shape P ns r xs \<Longrightarrow> i < length xs \<Longrightarrow> snd (snd (xs ! i)) = Failure m
     \<Longrightarrow> Suc i = length xs \<and> r = Inl (ExecutionException m)"
proof (induction arbitrary: i rule: run_shape.induct)
  case (passed n c ns r xs)
  then show ?case by (cases i) auto
qed auto

inductive_cases shape_NilE: "run_shape P [] r xs"

lemma shape_step:
  assumes one: "run_shape P [n] ra xa"
    and rest: "ra = Inr () \<Longrightarrow> run_shape P ns rb xb"
  shows "run_shape P (n # ns) (if ra = Inr () then rb else ra)
           (xa @ (if ra = Inr () then xb else []))"
  using one
proof (cases rule: run_shape.cases)
  case (raised e)
  then show ?thesis by (simp add: run_shape.raised)
next
  case (failed c m)
  then show ?thesis by (simp add: run_shape.failed)
next
  case (passed c xs)
  then have "run_shape P [] ra xs" by simp
  then have "ra = Inr () \<and> xs = [] \<or> (\<exists>e. ra = Inl e \<and> xs = [])"
    by (auto elim: shape_NilE)
  then show ?thesis
  proof
    assume a: "ra = Inr () \<and> xs = []"
    with passed rest show ?thesis by (simp add: run_shape.passed)
  next
    assume "\<exists>e. ra = Inl e \<and> xs = []"
    then obtain e where "ra = Inl e" "xs = []" by blast
    with passed show ?thesis by (simp add: run_shape.passed run_shape.raised)
  qed
qed

subsection \<open>One block\<close>

lemma mlflow_run_effect:
  assumes "mlflow_run ex n c w = (r, w')"
  shows "w' = w\<lparr>log := log w @ [Exec n c (ex w c)]\<rparr>
     \<and> (case ex w c of Success \<Rightarrow> r = Inr () | Failure m \<Rightarrow> r = Inl (ExecutionException m))"
  using assms by (auto simp: mlflow_run_def Let_def split: outcome.splits)

lemma run_step_shape:
  assumes "run_step ex n args w = (r, w')" and P: "\<And>c. args = Inr c \<Longrightarrow> P n c"
  shows "\<exists>evs. w' = w\<lparr>log := log w @ evs\<rparr> \<and> scope_events evs = []
     \<and> run_shape P [n] r (execs evs)"
proof (cases args)
  case (Inl e)
  with assms have "w' = w\<lparr>log := log w @ []\<rparr>" "r = Inl e" by (auto simp: run_step_def)
  then show ?thesis
    by (intro exI [of _ "[]"]) (simp add: run_shape.raised)
next
  case (Inr c)
  with assms have m: "mlflow_run ex n c w = (r, w')" by (simp add: run_step_def)
  note eff = mlflow_run_effect [OF m]
  have "run_shape P [n] r (execs [Exec n c (ex w c)])"
    using eff P [OF Inr] by (cases "ex w c") (auto intro: run_shape.intros)
  with eff show ?thesis
    by (intro exI [of _ "[Exec n c (ex w c)]"]) simp
qed

lemma same_frame_refl: "same_frame w w"
  by (simp add: same_frame_def)

lemma same_frame_trans: "same_frame w w1 \<Longrightarrow> same_frame w1 w2 \<Longrightarrow> same_frame w w2"
  by (simp add: same_frame_def)

lemma block_shape:
  assumes "block B ex config n w = (r, w')"
  shows "same_frame w w' \<and> (\<exists>evs. log w' = log w @ evs \<and> scope_events evs = []
     \<and> run_shape (\<lambda>n c. args_of B config (abspath w ''rf_config.json'') n = Inr c) [n] r (execs evs))"
    (is "_ \<and> (\<exists>evs. _ \<and> _ \<and> run_shape ?P [n] r (execs evs))")
proof (cases "n = ''train_random_forest''")
  case False
  with assms have "run_step ex n (args_of B config [] n) w = (r, w')"
    by (simp add: block_def)
  moreover have "args_of B config [] n = args_of B config (abspath w ''rf_config.json'') n"
    using False by (simp add: args_of_def)
  then have "\<And>c. args_of B config [] n = Inr c \<Longrightarrow> ?P n c"
    by simp
  ultimately obtain evs where
    "w' = w\<lparr>log := log w @ evs\<rparr>" "scope_events evs = []" "run_shape ?P [n] r (execs evs)"
    using run_step_shape [of ex n "args_of B config [] n" w r w' ?P] by blast
  then show ?thesis
    by (intro conjI exI [of _ evs]) (simp_all add: same_frame_def)
next
  case True
  define p where "p = abspath w ''rf_config.json''"
  define w1 where "w1 = open_w p w"
  from assms True have b: "train_random_forest_block B ex config w = (r, w')"
    by (simp add: block_def)
  show ?thesis
  proof (cases "ebind (cfg2 config ''modeling'' ''random_forest'') items")
    case (Inl e)
    with b have "r = Inl e" "w' = w1"
      by (auto simp: train_random_forest_block_def Let_def w1_def p_def)
    then have "same_frame w w'" "log w' = log w @ [Wrote p Empty]"
      by (auto simp: w1_def open_w_def same_frame_def)
    moreover have "run_shape ?P [n] r (execs [Wrote p Empty])"
      using \<open>r = Inl e\<close> by (simp add: run_shape.raised)
    ultimately show ?thesis
      by (intro conjI exI [of _ "[Wrote p Empty]"]) simp_all
  next
    case (Inr kvs)
    obtain rj w2 where j: "json_dump kvs p w1 = (rj, w2)" by (cases "json_dump kvs p w1")
    then obtain c where w2: "w2 = w1\<lparr>files := (files w1)(p \<mapsto> c), log := log w1 @ [Wrote p c]\<rparr>"
      by (auto simp: json_dump_def Let_def split: list.splits)
    show ?thesis
    proof (cases rj)
      case (Inl e)
      with b Inr j have "r = Inl e" "w' = w2"
        by (auto simp: train_random_forest_block_def Let_def w1_def p_def seq_Inl)
      then have "same_frame w w'" "log w' = log w @ [Wrote p Empty, Wrote p c]"
        by (auto simp: w2 w1_def open_w_def same_frame_def)
      moreover have "run_shape ?P [n] r (execs [Wrote p Empty, Wrote p c])"
        using \<open>r = Inl e\<close> by (simp add: run_shape.raised)
      ultimately show ?thesis
        by (intro conjI exI [of _ "[Wrote p Empty, Wrote p c]"]) simp_all
    next
      case (Inr u)
      with b \<open>ebind (cfg2 config ''modeling'' ''random_forest'') items = Inr kvs\<close> j
      have "run_step ex n (train_random_forest_args B config p) w2 = (r, w')"
        by (simp add: train_random_forest_block_def Let_def w1_def p_def True seq_Inr)
      moreover have "\<And>c. train_random_forest_args B config p = Inr c \<Longrightarrow> ?P n c"
        using True by (simp add: args_of_def p_def)
      ultimately obtain evs where
        w': "w' = w2\<lparr>log := log w2 @ evs\<rparr>" and sc: "scope_events evs = []"
        and sh: "run_shape ?P [n] r (execs evs)"
        using run_step_shape [of ex n "train_random_forest_args B config p" w2 r w' ?P] by blast
      have "same_frame w w'" "log w' = log w @ ([Wrote p Empty, Wrote p c] @ evs)"
        using w' by (auto simp: w2 w1_def open_w_def same_frame_def)
      then show ?thesis using sh sc
        by (intro conjI exI [of _ "[Wrote p Empty, Wrote p c] @ evs"]) simp_all
    qed
  qed
qed

subsection \<open>The chain of blocks\<close>

lemma run_blocks_shape:
  assumes "run_blocks (block B ex config) active ns w = (r, w')"
  shows "same_frame w w' \<and> (\<exists>evs. log w' = log w @ evs \<and> scope_events evs = []
     \<and> run_shape (\<lambda>n c. args_of B config (abspath w ''rf_config.json'') n = Inr c)
          (filter (\<lambda>n. n \<in> set active) ns) r (execs evs))"
  using assms
proof (induction ns arbitrary: w r w')
  case Nil
  then have "r = Inr ()" "w' = w" by (auto simp: lift_def)
  then show ?case
    by (intro conjI exI [of _ "[]"]) (simp_all add: same_frame_refl run_shape.finished)
next
  case (Cons n ns)
  let ?P = "\<lambda>w n c. args_of B config (abspath w ''rf_config.json'') n = Inr c"
  let ?sel = "filter (\<lambda>n. n \<in> set active) ns"
  show ?case
  proof (cases "n \<in> set active")
    case False
    with Cons.prems have "run_blocks (block B ex config) active ns w = (r, w')"
      by (simp add: py_if_def lift_def seq_Inr)
    from Cons.IH [OF this] obtain evs where
      "same_frame w w'" "log w' = log w @ evs" "scope_events evs = []"
      "run_shape (?P w) ?sel r (execs evs)"
      by blast
    then show ?thesis using False
      by (intro conjI exI [of _ evs]) simp_all
  next
    case True
    obtain r1 w1 where b: "block B ex config n w = (r1, w1)" by (cases "block B ex config n w")
    from block_shape [OF b] obtain evs1 where
      f1: "same_frame w w1" and l1: "log w1 = log w @ evs1" and c1: "scope_events evs1 = []"
      and s1: "run_shape (?P w) [n] r1 (execs evs1)" by blast
    show ?thesis
    proof (cases r1)
      case (Inl e)
      with b True Cons.prems have "r = r1" "w' = w1"
        by (auto simp: py_if_def seq_Inl)
      moreover have "run_shape (?P w) (n # ?sel) r1 (execs evs1)"
        using shape_step [OF s1, where ns = ?sel and rb = r1 and xb = "[]"] Inl
        by simp
      ultimately show ?thesis using f1 l1 c1 True
        by (intro conjI exI [of _ evs1]) simp_all
    next
      case (Inr u)
      with b True Cons.prems have rest: "run_blocks (block B ex config) active ns w1 = (r, w')"
        by (simp add: py_if_def seq_Inr)
      from Cons.IH [OF rest] obtain evs2 where
        f2: "same_frame w1 w'" and l2: "log w' = log w1 @ evs2" and c2: "scope_events evs2 = []"
        and s2: "run_shape (?P w1) ?sel r (execs evs2)" by blast
      have "abspath w1 ''rf_config.json'' = abspath w ''rf_config.json''"
        using f1 by (simp add: abspath_def same_frame_def)
      with s2 have s2': "run_shape (?P w) ?sel r (execs evs2)"
        by simp
      have "run_shape (?P w) (n # ?sel) r (execs evs1 @ execs evs2)"
        using shape_step [OF s1, where ns = ?sel and rb = r and xb = "execs evs2"] s2' Inr
        by simp
      moreover have "log w' = log w @ (evs1 @ evs2)" using l1 l2 by simp
      ultimately show ?thesis
        using same_frame_trans [OF f1 f2] True c1 c2
        by (intro conjI exI [of _ "evs1 @ evs2"]) (simp_all add: execs_append scope_events_append)
    qed
  qed
qed

lemma body_shape:
  assumes "pipeline_body B ex config active w = (r, w')"
  shows "same_frame w w' \<and> (\<exists>evs. log w' = log w @ evs \<and> scope_events evs = []
     \<and> run_shape (\<lambda>n c. args_of B config (abspath w ''rf_config.json'') n = Inr c)
          (filter (\<lambda>n. n \<in> set active) steps) r (execs evs))"
  using assms run_blocks_shape [of B ex config active steps w r w']
  by (simp add: pipeline_body_blocks)

lemma json_dump_scalars:
  assumes "list_all (\<lambda>(k, v). json_scalar v) kvs"
  shows "json_dump kvs p w
       = (Inr (), w\<lparr>files := (files w)(p \<mapsto> Json kvs), log := log w @ [Wrote p (Json kvs)]\<rparr>)"
proof -
  from assms have "dropWhile (\<lambda>(k, v). json_scalar v) kvs = []"
    by (simp add: list_all_iff)
  then show ?thesis by (simp only: json_dump_def list.case)
qed

lemma mlflow_run_success: "ex w c = Success \<Longrightarrow> fst (mlflow_run ex n c w) = Inr ()"
  by (simp add: mlflow_run_def Let_def)

lemma block_success:
  assumes rd: "ready B config (abspath w ''rf_config.json'') n"
    and ex: "\<And>v c. ex v c = Success"
  shows "fst (block B ex config n w) = Inr ()"
proof (cases "n = ''train_random_forest''")
  case False
  then have "args_of B config [] n = args_of B config (abspath w ''rf_config.json'') n"
    by (simp add: args_of_def)
  with rd obtain c where "args_of B config [] n = Inr c"
    by (auto simp: ready_def not_isl)
  with False show ?thesis
    by (simp add: block_def run_step_def mlflow_run_success ex)
next
  case True
  with rd obtain c kvs where
    "train_random_forest_args B config (abspath w ''rf_config.json'') = Inr c"
    "ebind (cfg2 config ''modeling'' ''random_forest'') items = Inr kvs"
    "list_all (\<lambda>(k, v). json_scalar v) kvs"
    by (auto simp: ready_def args_of_def not_isl split: sum.splits)
  with True show ?thesis
    by (simp add: block_def train_random_forest_block_def Let_def run_step_def
        mlflow_run_success ex json_dump_scalars seq_Inr)
qed

lemma run_blocks_success:
  assumes "\<And>n. n \<in> set ns \<Longrightarrow> n \<in> set active \<Longrightarrow> ready B config (abspath w ''rf_config.json'') n"
    and ex: "\<And>v c. ex v c = Success"
  shows "fst (run_blocks (block B ex config) active ns w) = Inr ()"
  using assms(1)
proof (induction ns arbitrary: w)
  case Nil
  show ?case by (simp add: lift_def)
next
  case (Cons n ns)
  show ?case
  proof (cases "n \<in> set active")
    case False
    then have "run_blocks (block B ex config) active (n # ns) w
        = run_blocks (block B ex config) active ns w"
      by (simp add: py_if_def lift_def seq_Inr)
    with Cons show ?thesis by simp
  next
    case True
    obtain r1 w1 where b: "block B ex config n w = (r1, w1)" by (cases "block B ex config n w")
    have "r1 = Inr ()"
      using block_success [of B config w n ex] Cons.prems True ex b by simp
    with b True have step: "run_blocks (block B ex config) active (n # ns) w
        = run_blocks (block B ex config) active ns w1"
      by (simp add: py_if_def seq_Inr)
    from block_shape [OF b] have "abspath w1 ''rf_config.json'' = abspath w ''rf_config.json''"
      by (simp add: same_frame_def abspath_def)
    with Cons.prems have "\<And>k. k \<in> set ns \<Longrightarrow> k \<in> set active
        \<Longrightarrow> ready B config (abspath w1 ''rf_config.json'') k"
      by simp
    from Cons.IH [OF this] step show ?thesis by simp
  qed
qed

subsection \<open>The statements before the with statement\<close>

lemma go_enters:
  assumes "cfg2 config ''main'' ''project_name'' = Inr (VStr p)" and "CHR 0x00 \<notin> set p"
    and "cfg2 config ''main'' ''experiment_name'' = Inr (VStr g)" and "CHR 0x00 \<notin> set g"
    and "cfg2 config ''main'' ''steps'' = Inr sp"
    and "active_steps sp = Inr active"
  shows "go B ex tmp config w = with_tmpdir tmp (pipeline_body B ex config active) (entered w p g)"
  using assms by (simp add: go_def bind_def lift_def entered_def)

lemma enters_scopeD:
  assumes "enters_scope config"
  obtains p g sp active where
    "cfg2 config ''main'' ''project_name'' = Inr (VStr p)" "CHR 0x00 \<notin> set p"
    "cfg2 config ''main'' ''experiment_name'' = Inr (VStr g)" "CHR 0x00 \<notin> set g"
    "cfg2 config ''main'' ''steps'' = Inr sp"
    "active_steps sp = Inr active"
proof -
  from assms obtain p where p: "cfg2 config ''main'' ''project_name'' = Inr (VStr p)"
    "CHR 0x00 \<notin> set p"
    by (auto simp: enters_scope_def split: sum.splits cval.splits)
  with assms obtain g where g: "cfg2 config ''main'' ''experiment_name'' = Inr (VStr g)"
    "CHR 0x00 \<notin> set g"
    by (auto simp: enters_scope_def split: sum.splits cval.splits)
  with p assms obtain active where
    a: "ebind (cfg2 config ''main'' ''steps'') active_steps = Inr active"
    by (auto simp: enters_scope_def not_isl)
  then obtain sp where "cfg2 config ''main'' ''steps'' = Inr sp" "active_steps sp = Inr active"
    by (auto simp: ebind_def split: sum.splits)
  with p g that show thesis by blast
qed

lemma go_early:
  assumes "\<not> enters_scope config" and "go B ex tmp config w = (r, w')"
  shows "isl r \<and> dirs w' = dirs w \<and> files w' = files w \<and> cwd w' = cwd w
     \<and> (\<exists>evs. log w' = log w @ evs \<and> scope_events evs = [] \<and> execs evs = [])"
  using assms
  by (auto simp: go_def bind_def lift_def enters_scope_def ebind_def not_isl
      split: sum.splits cval.splits if_splits)

subsection \<open>The whole run\<close>

lemma go_entered:
  assumes "cfg2 config ''main'' ''project_name'' = Inr (VStr p)" and "CHR 0x00 \<notin> set p"
    and "cfg2 config ''main'' ''experiment_name'' = Inr (VStr g)" and "CHR 0x00 \<notin> set g"
    and "cfg2 config ''main'' ''steps'' = Inr sp"
    and "active_steps sp = Inr active"
    and "go B ex tmp config w = (r, w')"
  obtains wb where
    "pipeline_body B ex config active (mkdtemp tmp (entered w p g)) = (r, wb)"
    "w' = snd (cleanup tmp wb)"
proof -
  obtain rb wb where b: "pipeline_body B ex config active (mkdtemp tmp (entered w p g)) = (rb, wb)"
    by (cases "pipeline_body B ex config active (mkdtemp tmp (entered w p g))")
  with assms have "r = rb" "w' = snd (cleanup tmp wb)"
    by (simp_all add: go_enters with_tmpdir_def)
  with b that show thesis by blast
qed

lemma cleanup_effect:
  "snd (cleanup tmp w) = (if tmp \<in> dirs w then rmtree tmp w else w)\<lparr>log := log w @ [Cleanup tmp]\<rparr>"
  by (simp add: cleanup_def Let_def rmtree_def)

lemma resolved_eq:
  "cfg2 config ''main'' ''steps'' = Inr sp \<Longrightarrow> active_steps sp = Inr active
     \<Longrightarrow> resolved config = filter (\<lambda>n. n \<in> set active) steps"
  by (simp add: resolved_def ebind_def)

lemma go_shape:
  assumes "go B ex tmp config w = (r, w')"
  shows "cwd w' = cwd w \<and> (\<exists>evs. log w' = log w @ evs
     \<and> scope_events evs = (if enters_scope config then [MkDTemp tmp, Cleanup tmp] else [])
     \<and> run_shape (\<lambda>n c. args_of B config (abspath w ''rf_config.json'') n = Inr c)
          (resolved config) r (execs evs))"
    (is "_ \<and> (\<exists>evs. _ \<and> _ \<and> run_shape ?P _ r (execs evs))")
proof (cases "enters_scope config")
  case False
  from go_early [OF False assms] obtain evs where
    "isl r" "cwd w' = cwd w" "log w' = log w @ evs" "scope_events evs = []" "execs evs = []"
    by blast
  moreover from \<open>isl r\<close> obtain e where "r = Inl e" by (cases r) auto
  ultimately show ?thesis using False
    by (intro conjI exI [of _ evs]) (simp_all add: run_shape.raised)
next
  case True
  then obtain p g sp active where keys:
    "cfg2 config ''main'' ''project_name'' = Inr (VStr p)" "CHR 0x00 \<notin> set p"
    "cfg2 config ''main'' ''experiment_name'' = Inr (VStr g)" "CHR 0x00 \<notin> set g"
    "cfg2 config ''main'' ''steps'' = Inr sp"
    "active_steps sp = Inr active"
    by (rule enters_scopeD)
  define w0 where "w0 = mkdtemp tmp (entered w p g)"
  from go_entered [OF keys assms] obtain wb where
    b: "pipeline_body B ex config active w0 = (r, wb)" and w': "w' = snd (cleanup tmp wb)"
    unfolding w0_def by blast
  from body_shape [OF b] obtain evs where
    f: "same_frame w0 wb" and l: "log wb = log w0 @ evs" and sc: "scope_events evs = []"
    and sh: "run_shape (\<lambda>n c. args_of B config (abspath w0 ''rf_config.json'') n = Inr c)
          (filter (\<lambda>n. n \<in> set active) steps) r (execs evs)"
    by blast
  have c0: "cwd w0 = cwd w"
    and l0: "log w0 = log w @ [SetEnv ''WANDB_PROJECT'' p, SetEnv ''WANDB_RUN_GROUP'' g, MkDTemp tmp]"
    by (simp_all add: w0_def mkdtemp_def entered_def)
  have "cwd w' = cwd w"
    using f c0 by (simp add: w' cleanup_effect rmtree_def same_frame_def)
  moreover have "log w' = log w @ ([SetEnv ''WANDB_PROJECT'' p, SetEnv ''WANDB_RUN_GROUP'' g,
      MkDTemp tmp] @ evs @ [Cleanup tmp])"
    using l l0 by (simp add: w' cleanup_effect rmtree_def)
  moreover have "run_shape ?P (resolved config) r (execs evs)"
    using sh c0 keys by (simp add: resolved_eq abspath_def)
  ultimately show ?thesis using True sc
    by (intro conjI exI [of _ "[SetEnv ''WANDB_PROJECT'' p, SetEnv ''WANDB_RUN_GROUP'' g,
      MkDTemp tmp] @ evs @ [Cleanup tmp]"]) (simp_all add: execs_append scope_events_append)
qed

lemma go_trace:
  assumes "go B ex tmp config w = (r, w')"
  shows "run_shape (\<lambda>n c. args_of B config (abspath w ''rf_config.json'') n = Inr c)
          (resolved config) r (execs (trace_of w w'))"
    and "scope_events (trace_of w w')
          = (if enters_scope config then [MkDTemp tmp, Cleanup tmp] else [])"
  using go_shape [OF assms] by (auto simp: trace_of_def)

lemma distinct_steps: "distinct steps"
  by (simp add: steps_def)

lemma distinct_resolved: "distinct (resolved config)"
  by (simp add: resolved_def distinct_steps split: sum.splits)

lemma invoked_prefix:
  assumes "go B ex tmp config w = (r, w')"
  shows "prefix (invoked w w') (resolved config)"
  using go_trace(1) [OF assms] by (simp add: invoked_def shape_prefix)

lemma count_list_distinct:
  "distinct xs \<Longrightarrow> count_list xs x = (if x \<in> set xs then 1 else 0)"
  by (induction xs) auto

lemma nth_in_take:
  assumes "distinct xs" and "j < length xs"
  shows "xs ! j \<in> set (take k xs) \<longleftrightarrow> j < k"
proof
  assume "xs ! j \<in> set (take k xs)"
  then obtain i where i: "i < length (take k xs)" "take k xs ! i = xs ! j"
    by (auto simp: in_set_conv_nth)
  then have "xs ! i = xs ! j" "i < length xs" "i < k" by simp_all
  with assms have "i = j" by (simp add: nth_eq_iff_index_eq)
  with \<open>i < k\<close> show "j < k" by simp
next
  assume "j < k"
  with assms(2) have "j < length (take k xs)" by simp
  then have "take k xs ! j \<in> set (take k xs)" by (rule nth_mem)
  with \<open>j < k\<close> show "xs ! j \<in> set (take k xs)" by simp
qed

lemma run_blocks_none:
  "set ns \<inter> set active = {} \<Longrightarrow> run_blocks blk active ns w = (Inr (), w)"
  by (induction ns) (simp_all add: lift_def py_if_def seq_Inr)

subsection \<open>The environment and the directory after a run\<close>

lemma cleanup_removes:
  assumes "tmp \<in> dirs w" and "under tmp q"
  shows "q \<notin> dirs (snd (cleanup tmp w)) \<and> files (snd (cleanup tmp w)) q = None"
  using assms by (simp add: cleanup_effect rmtree_def)

lemma cleanup_gone:
  "tmp \<notin> dirs v \<Longrightarrow> cleanup tmp v = (Inr (), v\<lparr>log := log v @ [Cleanup tmp]\<rparr>)"
  by (simp add: cleanup_def)

lemma bindingD:
  "binding config key = Some s \<Longrightarrow> cfg2 config ''main'' key = Inr (VStr s) \<and> CHR 0x00 \<notin> set s"
  by (auto simp: binding_def split: sum.splits cval.splits if_splits)

lemma bindingI:
  "cfg2 config ''main'' key = Inr (VStr s) \<Longrightarrow> CHR 0x00 \<notin> set s \<Longrightarrow> binding config key = Some s"
  by (simp add: binding_def)

lemma go_no_project:
  assumes "binding config ''project_name'' = None" and "go B ex tmp config w = (r, w')"
  shows "isl r \<and> w' = w"
  using assms
  by (auto simp: go_def bind_def lift_def binding_def split: sum.splits cval.splits if_splits)

lemma go_no_experiment:
  assumes "binding config ''project_name'' = Some p"
    and "binding config ''experiment_name'' = None"
    and "go B ex tmp config w = (r, w')"
  shows "isl r \<and> w' = w\<lparr>environ := (environ w)(''WANDB_PROJECT'' \<mapsto> p),
      log := log w @ [SetEnv ''WANDB_PROJECT'' p]\<rparr>"
proof -
  from bindingD [OF assms(1)] have p: "cfg2 config ''main'' ''project_name'' = Inr (VStr p)"
    "CHR 0x00 \<notin> set p" by simp_all
  with assms(2,3) show ?thesis
    by (auto simp: go_def bind_def lift_def binding_def split: sum.splits cval.splits if_splits)
qed

lemma go_no_selection:
  assumes "binding config ''project_name'' = Some p"
    and "binding config ''experiment_name'' = Some g"
    and "ebind (cfg2 config ''main'' ''steps'') active_steps = Inl e"
    and "go B ex tmp config w = (r, w')"
  shows "r = Inl e \<and> w' = entered w p g"
proof -
  from bindingD [OF assms(1)] bindingD [OF assms(2)]
  have "cfg2 config ''main'' ''project_name'' = Inr (VStr p)" "CHR 0x00 \<notin> set p"
    "cfg2 config ''main'' ''experiment_name'' = Inr (VStr g)" "CHR 0x00 \<notin> set g"
    by simp_all
  with assms(3,4) show ?thesis
    by (auto simp: go_def bind_def lift_def entered_def ebind_def split: sum.splits)
qed

lemma go_environment:
  assumes "go B ex tmp config w = (r, w')"
  shows "environ w' =
     (case binding config ''project_name'' of
        None \<Rightarrow> environ w
      | Some p \<Rightarrow>
          (case binding config ''experiment_name'' of
             None \<Rightarrow> (environ w)(''WANDB_PROJECT'' \<mapsto> p)
           | Some g \<Rightarrow> (environ w)(''WANDB_PROJECT'' \<mapsto> p, ''WANDB_RUN_GROUP'' \<mapsto> g)))"
proof (cases "binding config ''project_name''")
  case None
  with go_no_project [OF None assms] show ?thesis by simp
next
  case p: (Some p)
  show ?thesis
  proof (cases "binding config ''experiment_name''")
    case None
    with go_no_experiment [OF p None assms] p show ?thesis by simp
  next
    case g: (Some g)
    have "environ w' = environ (entered w p g)"
    proof (cases "ebind (cfg2 config ''main'' ''steps'') active_steps")
      case (Inl e)
      from go_no_selection [OF p g Inl assms] show ?thesis by simp
    next
      case (Inr active)
      then obtain sp where sp: "cfg2 config ''main'' ''steps'' = Inr sp"
        "active_steps sp = Inr active"
        by (auto simp: ebind_def split: sum.splits)
      from bindingD [OF p] bindingD [OF g]
      have k: "cfg2 config ''main'' ''project_name'' = Inr (VStr p)" "CHR 0x00 \<notin> set p"
        "cfg2 config ''main'' ''experiment_name'' = Inr (VStr g)" "CHR 0x00 \<notin> set g"
        by simp_all
      from go_entered [OF k sp assms] obtain wb where
        b: "pipeline_body B ex config active (mkdtemp tmp (entered w p g)) = (r, wb)"
        and w': "w' = snd (cleanup tmp wb)" by blast
      from body_shape [OF b] have "environ wb = environ (mkdtemp tmp (entered w p g))"
        by (simp add: same_frame_def)
      then show ?thesis
        by (simp add: w' cleanup_effect rmtree_def mkdtemp_def)
    qed
    with p g show ?thesis by (simp add: entered_def)
  qed
qed

lemma go_removes:
  assumes "enters_scope config" and "go B ex tmp config w = (r, w')"
  shows "tmp \<notin> dirs w' \<and> (\<forall>q. under tmp q \<longrightarrow> q \<notin> dirs w' \<and> files w' q = None)"
proof -
  from assms(1) obtain p g sp active where keys:
    "cfg2 config ''main'' ''project_name'' = Inr (VStr p)" "CHR 0x00 \<notin> set p"
    "cfg2 config ''main'' ''experiment_name'' = Inr (VStr g)" "CHR 0x00 \<notin> set g"
    "cfg2 config ''main'' ''steps'' = Inr sp"
    "active_steps sp = Inr active"
    by (rule enters_scopeD)
  from go_entered [OF keys assms(2)] obtain wb where
    b: "pipeline_body B ex config active (mkdtemp tmp (entered w p g)) = (r, wb)"
    and w': "w' = snd (cleanup tmp wb)" by blast
  from body_shape [OF b] have "dirs wb = dirs (mkdtemp tmp (entered w p g))"
    by (simp add: same_frame_def)
  then have "tmp \<in> dirs wb" by (simp add: mkdtemp_def)
  from cleanup_removes [OF this] show ?thesis
    by (simp add: w' under_def)
qed

lemma count_scope_events:
  "count_list es (Cleanup d) = count_list (scope_events es) (Cleanup d)"
  "count_list es (MkDTemp d) = count_list (scope_events es) (MkDTemp d)"
  by (induction es rule: scope_events.induct) simp_all

subsection \<open>Two runs of one configuration\<close>

lemma shape_agree:
  assumes "run_shape P ns ra xs" and "run_shape Q ns rb ys"
    and "\<And>n c c'. P n c \<Longrightarrow> Q n c' \<Longrightarrow> f c = f c'"
  shows "(prefix (map (\<lambda>(n, c, out). (n, f c)) xs) (map (\<lambda>(n, c, out). (n, f c)) ys)
        \<or> prefix (map (\<lambda>(n, c, out). (n, f c)) ys) (map (\<lambda>(n, c, out). (n, f c)) xs))
     \<and> (ra = Inr () \<and> rb = Inr ()
          \<longrightarrow> map (\<lambda>(n, c, out). (n, f c)) xs = map (\<lambda>(n, c, out). (n, f c)) ys)"
  using assms(1,2)
proof (induction arbitrary: rb ys rule: run_shape.induct)
  case finished
  from finished show ?case by (cases rule: run_shape.cases) simp_all
next
  case (raised ns e)
  show ?case by simp
next
  case (failed n c ns m)
  from failed(2) show ?case
  proof (cases rule: run_shape.cases)
    case (failed c' m')
    with \<open>P n c\<close> assms(3) show ?thesis by simp
  next
    case (passed c' ys')
    with \<open>P n c\<close> assms(3) show ?thesis by simp
  qed simp_all
next
  case (passed n c ns r xs)
  from passed(4) show ?case
  proof (cases rule: run_shape.cases)
    case (failed c' m')
    with \<open>P n c\<close> assms(3) show ?thesis by simp
  next
    case (passed c' ys')
    with \<open>P n c\<close> assms(3) passed.IH [of rb ys'] show ?thesis by simp
  qed simp_all
qed

lemma args_agree:
  assumes "args_of B config p n = Inr c" and "args_of B config q n = Inr c'"
  shows "filter (\<lambda>(k, v). k \<noteq> ''rf_config'') (parameters c)
       = filter (\<lambda>(k, v). k \<noteq> ''rf_config'') (parameters c')"
proof (cases "n = ''train_random_forest''")
  case False
  then have "args_of B config p n = args_of B config q n"
    by (simp add: args_of_def)
  with assms show ?thesis by simp
next
  case True
  with assms have "train_random_forest_args B config p = Inr c"
    and "train_random_forest_args B config q = Inr c'"
    by (simp_all add: args_of_def)
  then show ?thesis
    by (auto simp: train_random_forest_args_def ebind_def split: sum.splits)
qed

lemma passed_parameters_map:
  "passed_parameters w w' = map (\<lambda>(n, c, out). (n, parameters c)) (execs (trace_of w w'))"
  "without_rf_config (passed_parameters w w')
     = map (\<lambda>(n, c, out). (n, filter (\<lambda>(k, v). k \<noteq> ''rf_config'') (parameters c)))
         (execs (trace_of w w'))"
  by (simp_all add: passed_parameters_def without_rf_config_def case_prod_beta)

text \<open>
  Two runs of one configuration, with any executors, temporary directories and worlds:
  apart from the value of \<^verbatim>\<open>rf_config\<close> the parameter mappings agree as far as both
  runs get.
\<close>

lemma parameters_agree:
  assumes "go B ex1 tmp1 config w1 = (r1, w1')"
    and "go B ex2 tmp2 config w2 = (r2, w2')"
  shows "(prefix (without_rf_config (passed_parameters w1 w1'))
                 (without_rf_config (passed_parameters w2 w2'))
          \<or> prefix (without_rf_config (passed_parameters w2 w2'))
                    (without_rf_config (passed_parameters w1 w1')))
     \<and> (r1 = Inr () \<and> r2 = Inr ()
          \<longrightarrow> without_rf_config (passed_parameters w1 w1')
              = without_rf_config (passed_parameters w2 w2'))
     \<and> (cwd w1 = cwd w2
          \<longrightarrow> (prefix (passed_parameters w1 w1') (passed_parameters w2 w2')
                \<or> prefix (passed_parameters w2 w2') (passed_parameters w1 w1'))
              \<and> (r1 = Inr () \<and> r2 = Inr ()
                    \<longrightarrow> passed_parameters w1 w1' = passed_parameters w2 w2'))"
proof -
  let ?P = "\<lambda>w n c. args_of B config (abspath w ''rf_config.json'') n = Inr c"
  note s1 = go_trace(1) [OF assms(1)] and s2 = go_trace(1) [OF assms(2)]
  have ag: "\<And>n c c'. ?P w1 n c \<Longrightarrow> ?P w2 n c'
      \<Longrightarrow> filter (\<lambda>(k, v). k \<noteq> ''rf_config'') (parameters c)
        = filter (\<lambda>(k, v). k \<noteq> ''rf_config'') (parameters c')"
    by (rule args_agree)
  have scrubbed: "(prefix (without_rf_config (passed_parameters w1 w1'))
                 (without_rf_config (passed_parameters w2 w2'))
          \<or> prefix (without_rf_config (passed_parameters w2 w2'))
                    (without_rf_config (passed_parameters w1 w1')))
     \<and> (r1 = Inr () \<and> r2 = Inr ()
          \<longrightarrow> without_rf_config (passed_parameters w1 w1')
              = without_rf_config (passed_parameters w2 w2'))"
    unfolding passed_parameters_map(2)
    by (rule shape_agree [OF s1 s2,
          where f = "\<lambda>c. filter (\<lambda>(k, v). k \<noteq> ''rf_config'') (parameters c)"])
       (rule ag)
  have full: "(prefix (passed_parameters w1 w1') (passed_parameters w2 w2')
                \<or> prefix (passed_parameters w2 w2') (passed_parameters w1 w1'))
              \<and> (r1 = Inr () \<and> r2 = Inr ()
                    \<longrightarrow> passed_parameters w1 w1' = passed_parameters w2 w2')"
    if "cwd w1 = cwd w2"
  proof -
    from that have ag': "\<And>n c c'. ?P w1 n c \<Longrightarrow> ?P w2 n c' \<Longrightarrow> parameters c = parameters c'"
      by (simp add: abspath_def)
    show ?thesis
      unfolding passed_parameters_map(1)
      by (rule shape_agree [OF s1 s2, where f = parameters]) (rule ag')
  qed
  from scrubbed full show ?thesis by blast
qed

subsection \<open>Splitting at commas\<close>

lemma str_split_not_Nil: "str_split c s \<noteq> []"
  by (induction s) (auto split: list.splits)

lemma str_join_Cons_Cons: "str_join sep ((x # t) # ts) = x # str_join sep (t # ts)"
  by (cases ts) simp_all

lemma str_join_split: "str_join [c] (str_split c s) = s"
proof (induction s)
  case Nil
  show ?case by simp
next
  case (Cons x s)
  obtain t ts where ts: "str_split c s = t # ts"
    using str_split_not_Nil [of c s] by (cases "str_split c s") auto
  show ?case
  proof (cases "x = c")
    case True
    with Cons ts show ?thesis by simp
  next
    case False
    with Cons ts show ?thesis by (simp add: str_join_Cons_Cons)
  qed
qed

lemma str_split_no_sep: "t \<in> set (str_split c s) \<Longrightarrow> c \<notin> set t"
proof (induction s arbitrary: t)
  case Nil
  then show ?case by simp
next
  case (Cons x s)
  obtain u us where us: "str_split c s = u # us"
    using str_split_not_Nil [of c s] by (cases "str_split c s") auto
  show ?case
  proof (cases "x = c")
    case True
    with Cons show ?thesis by auto
  next
    case False
    with Cons.prems us have "t = x # u \<or> t \<in> set us" by simp
    then show ?thesis
    proof
      assume "t = x # u"
      moreover have "c \<notin> set u" using Cons.IH [of u] us by simp
      ultimately show ?thesis using False by auto
    next
      assume "t \<in> set us"
      then show ?thesis using Cons.IH [of t] us by simp
    qed
  qed
qed

subsection \<open>A run in which nothing raises\<close>

lemma run_succeeds:
  assumes "cfg2 config ''main'' ''project_name'' = Inr (VStr p)" and "CHR 0x00 \<notin> set p"
    and "cfg2 config ''main'' ''experiment_name'' = Inr (VStr g)" and "CHR 0x00 \<notin> set g"
    and "cfg2 config ''main'' ''steps'' = Inr sp"
    and "active_steps sp = Inr active"
    and rd: "\<And>n. n \<in> set steps \<Longrightarrow> n \<in> set active
      \<Longrightarrow> ready B config (abspath w ''rf_config.json'') n"
    and ex: "\<And>v c. ex v c = Success"
    and go: "go B ex tmp config w = (r, w')"
  shows "r = Inr () \<and> invoked w w' = filter (\<lambda>n. n \<in> set active) steps"
proof -
  from go_entered [OF assms(1-6) go] obtain wb where
    b: "pipeline_body B ex config active (mkdtemp tmp (entered w p g)) = (r, wb)"
    by blast
  have "abspath (mkdtemp tmp (entered w p g)) ''rf_config.json'' = abspath w ''rf_config.json''"
    by (simp add: abspath_def mkdtemp_def entered_def)
  with rd have "\<And>n. n \<in> set steps \<Longrightarrow> n \<in> set active
      \<Longrightarrow> ready B config (abspath (mkdtemp tmp (entered w p g)) ''rf_config.json'') n"
    by simp
  from run_blocks_success [of steps active B config "mkdtemp tmp (entered w p g)" ex, OF this]
  have r: "r = Inr ()"
    using ex b by (simp add: pipeline_body_blocks)
  from go_trace(1) [OF go] r
  have "map fst (execs (trace_of w w')) = resolved config"
    using shape_complete by blast
  then have "invoked w w' = filter (\<lambda>n. n \<in> set active) steps"
    using assms(5,6) by (simp add: invoked_def resolved_eq)
  with r show ?thesis by simp
qed

subsection \<open>The example, evaluated\<close>

lemma example_keys:
  "cfg2 (example_config s) ''main'' ''project_name'' = Inr (VStr ''nyc_airbnb'')"
  "CHR 0x00 \<notin> set ''nyc_airbnb''"
  "cfg2 (example_config s) ''main'' ''experiment_name'' = Inr (VStr ''development'')"
  "CHR 0x00 \<notin> set ''development''"
  "cfg2 (example_config s) ''main'' ''steps'' = Inr (VStr s)"
  by (simp_all add: example_config_def cfg2_def ebind_def)

lemma example_args:
  "download_args example_builtins (example_config s) =
     Inr \<lparr>uri = ''https://example.org/repo#components/get_data'', entry_point = ''main'',
          env_manager = ''conda'',
          parameters = [(''sample'', VStr ''sample1.csv''), (''artifact_name'', VStr ''sample.csv''),
            (''artifact_type'', VStr ''raw_data''),
            (''artifact_description'', VStr ''Raw file as downloaded'')]\<rparr>"
  "basic_cleaning_args example_builtins (example_config s) =
     Inr \<lparr>uri = ''https://example.org/repo#components/basic_cleaning'', entry_point = ''main'',
          env_manager = ''conda'',
          parameters = [(''input_artifact'', VStr ''sample.csv:latest''),
            (''output_artifact'', VStr ''clean_data.csv''), (''output_type'', VStr ''clean_data''),
            (''output_description'', VStr ''Cleaned dataset after basic preprocessing'')]\<rparr>"
  "data_check_args example_builtins (example_config s) =
     Inr \<lparr>uri = ''https://example.org/repo#components/data_check'', entry_point = ''main'',
          env_manager = ''conda'',
          parameters = [(''csv'', VStr ''clean_sample.csv:latest''),
            (''ref'', VStr ''clean_sample.csv:reference''), (''kl_threshold'', VFloat (1, - 2)),
            (''min_price'', VInt 10), (''max_price'', VInt 350)]\<rparr>"
  "train_val_test_split_args example_builtins (example_config s) =
     Inr \<lparr>uri = ''https://example.org/repo#components/train_val_test_split'',
          entry_point = ''main'', env_manager = ''conda'',
          parameters = [(''input'', VStr ''clean_sample.csv:latest''), (''test_size'', VStr ''0.25''),
            (''random_seed'', VStr ''42''), (''stratify_by'', VStr ''neighbourhood_group'')]\<rparr>"
  "train_random_forest_args example_builtins (example_config s) p =
     Inr \<lparr>uri = ''src/train_random_forest'', entry_point = ''main'', env_manager = ''conda'',
          parameters = [(''trainval_artifact'', VStr ''trainval_data.csv:latest''),
            (''val_size'', VFloat (1, - 2)), (''random_seed'', VInt 42),
            (''stratify_by'', VStr ''neighbourhood_group''), (''max_tfidf_features'', VInt 5),
            (''rf_config'', VStr p), (''output_artifact'', VStr ''random_forest_export'')]\<rparr>"
  "ebind (cfg2 (example_config s) ''modeling'' ''random_forest'') items =
     Inr [(''n_estimators'', VInt 100), (''max_depth'', VInt 15)]"
  by (simp_all add: example_config_def example_builtins_def cfg2_def ebind_def
      download_args_def basic_cleaning_args_def data_check_args_def
      train_val_test_split_args_def train_random_forest_args_def)

lemma example_ready: "ready example_builtins (example_config s) p n"
  by (simp add: ready_def args_of_def example_args test_regression_model_args_def)

lemma example_enters: "enters_scope (example_config s)"
  by (simp add: enters_scope_def example_keys ebind_def)

lemmas run_example =
  go_def bind_def lift_def example_keys example_args with_tmpdir_def pipeline_body_def seq_def
  py_if_def run_step_def mlflow_run_def mkdtemp_def cleanup_def rmtree_def
  test_regression_model_args_def train_random_forest_block_def
  open_w_def json_dump_def abspath_def path_join_def under_def trace_of_def invoked_def Let_def
  example_world_def ex_ok_def ex_fail_at_def

section \<open>The claims\<close>

text \<open>
  C1 (the code does otherwise). Under the selection \<^verbatim>\<open>"all"\<close> the active steps are the
  whole list \<^verbatim>\<open>_steps\<close>, and \<^verbatim>\<open>test_regression_model\<close> is an element of it: on the
  example configuration the run calls the executor for all six steps, the last of them
  \<^verbatim>\<open>test_regression_model\<close>.
\<close>

theorem all_runs_test_regression_model:
  "active_steps (VStr ''all'') = Inr steps
   \<and> ''test_regression_model'' \<in> set steps
   \<and> fst (go example_builtins ex_ok ''/tmp/tmpx'' (example_config ''all'') example_world) = Inr ()
   \<and> invoked example_world
        (snd (go example_builtins ex_ok ''/tmp/tmpx'' (example_config ''all'') example_world))
      = [''download'', ''basic_cleaning'', ''data_check'', ''train_val_test_split'',
         ''train_random_forest'', ''test_regression_model'']"
  by (simp add: run_example steps_def)




text \<open>
  C3. For a selection whose tokens are all registry steps, when nothing raises before
  the with statement or while the blocks of the selected steps get to their calls, and
  every step succeeds, the run returns, and the executor is called for exactly the
  selected steps, once each, in the order of the registry whatever the order of the
  tokens.
\<close>

theorem selection_runs_in_registry_order:
  assumes "cfg2 config ''main'' ''project_name'' = Inr (VStr p)" and "CHR 0x00 \<notin> set p"
    and "cfg2 config ''main'' ''experiment_name'' = Inr (VStr g)" and "CHR 0x00 \<notin> set g"
    and "cfg2 config ''main'' ''steps'' = Inr sp"
    and "active_steps sp = Inr active"
    and "set active \<subseteq> set steps"
    and "\<forall>n \<in> set active. ready B config (abspath w ''rf_config.json'') n"
    and "\<forall>v c. ex v c = Success"
    and "go B ex tmp config w = (r, w')"
  shows "r = Inr ()
     \<and> invoked w w' = filter (\<lambda>n. n \<in> set active) steps
     \<and> set (invoked w w') = set active
     \<and> distinct (invoked w w')"
proof -
  from run_succeeds [OF assms(1-6) _ _ assms(10)] assms(8,9)
  have r: "r = Inr ()" and inv: "invoked w w' = filter (\<lambda>n. n \<in> set active) steps"
    by blast+
  moreover have "set (filter (\<lambda>n. n \<in> set active) steps) = set active"
    using assms(7) by auto
  moreover have "distinct (filter (\<lambda>n. n \<in> set active) steps)"
    by (simp add: distinct_steps)
  ultimately show ?thesis by simp
qed

text \<open>
  Witness of C3: the selection \<^verbatim>\<open>"data_check,download"\<close> runs \<^verbatim>\<open>download\<close>, then
  \<^verbatim>\<open>data_check\<close>.
\<close>

theorem selection_runs_in_registry_order_witness:
  "fst (go example_builtins ex_ok ''/tmp/tmpx'' (example_config ''data_check,download'')
          example_world) = Inr ()
   \<and> invoked example_world (snd (go example_builtins ex_ok ''/tmp/tmpx''
          (example_config ''data_check,download'') example_world))
      = [''download'', ''data_check'']"
proof -
  let ?c = "example_config ''data_check,download''"
  let ?run = "go example_builtins ex_ok ''/tmp/tmpx'' ?c example_world"
  have a: "active_steps (VStr ''data_check,download'') = Inr [''data_check'', ''download'']"
    by simp
  have s: "set [''data_check'', ''download''] \<subseteq> set steps"
    by (simp add: steps_def)
  have rd: "\<forall>n \<in> set [''data_check'', ''download''].
      ready example_builtins ?c (abspath example_world ''rf_config.json'') n"
    by (simp add: example_ready)
  have ex: "\<forall>v c. ex_ok v c = Success"
    by (simp add: ex_ok_def)
  have "?run = (fst ?run, snd ?run)" by simp
  from selection_runs_in_registry_order [OF example_keys a s rd ex this]
  show ?thesis by (simp add: steps_def)
qed

text \<open>
  C4. When the executor fails at position \<open>i\<close> of a run, \<open>i\<close> is a position of the
  resolved active set, the steps called are exactly those at the positions up to \<open>i\<close>,
  each once, no step at a later position is called, and the run ends with the
  executor's exception.
\<close>

theorem fail_fast:
  assumes "go B ex tmp config w = (r, w')"
    and "i < length (execs (trace_of w w'))"
    and "snd (snd (execs (trace_of w w') ! i)) = Failure m"
  shows "i < length (resolved config)
     \<and> invoked w w' = take (Suc i) (resolved config)
     \<and> r = Inl (ExecutionException m)
     \<and> (\<forall>j < length (resolved config).
          count_list (invoked w w') (resolved config ! j) = (if j \<le> i then 1 else 0))"
proof -
  let ?xs = "execs (trace_of w w')"
  from go_trace(1) [OF assms(1)] have sh: "run_shape
      (\<lambda>n c. args_of B config (abspath w ''rf_config.json'') n = Inr c) (resolved config) r ?xs" .
  from shape_failure [OF sh assms(2,3)] have last: "Suc i = length ?xs"
    and r: "r = Inl (ExecutionException m)" by simp_all
  from shape_prefix [OF sh] have pre: "prefix (invoked w w') (resolved config)"
    by (simp add: invoked_def)
  have len: "length (invoked w w') = Suc i"
    using last by (simp add: invoked_def)
  from pre have tk: "invoked w w' = take (Suc i) (resolved config)"
    using len by (metis append_eq_conv_conj prefix_def)
  from pre len have i: "i < length (resolved config)"
    by (metis Suc_le_lessD prefix_length_le)
  have "count_list (invoked w w') (resolved config ! j) = (if j \<le> i then 1 else 0)"
    if "j < length (resolved config)" for j
  proof -
    have "distinct (take (Suc i) (resolved config))"
      by (simp add: distinct_resolved)
    then show ?thesis
      using nth_in_take [OF distinct_resolved that, of "Suc i"]
      by (simp add: tk count_list_distinct less_Suc_eq_le)
  qed
  with i tk r show ?thesis by simp
qed

text \<open>
  Witness of C4: under the selection \<^verbatim>\<open>"all"\<close> with \<^verbatim>\<open>data_check\<close> failing (position 2),
  the first three steps are called once and \<^verbatim>\<open>train_val_test_split\<close> is not called.
\<close>

theorem fail_fast_witness:
  "fst (go example_builtins (ex_fail_at ''https://example.org/repo#components/data_check'')
          ''/tmp/tmpx'' (example_config ''all'') example_world)
     = Inl (ExecutionException ''step failed'')
   \<and> invoked example_world
        (snd (go example_builtins (ex_fail_at ''https://example.org/repo#components/data_check'')
          ''/tmp/tmpx'' (example_config ''all'') example_world))
     = [''download'', ''basic_cleaning'', ''data_check'']
   \<and> count_list (invoked example_world
        (snd (go example_builtins (ex_fail_at ''https://example.org/repo#components/data_check'')
          ''/tmp/tmpx'' (example_config ''all'') example_world))) ''data_check'' = 1
   \<and> count_list (invoked example_world
        (snd (go example_builtins (ex_fail_at ''https://example.org/repo#components/data_check'')
          ''/tmp/tmpx'' (example_config ''all'') example_world))) ''train_val_test_split'' = 0"
proof -
  let ?c = "example_config ''all''"
  let ?run = "go example_builtins (ex_fail_at ''https://example.org/repo#components/data_check'')
          ''/tmp/tmpx'' ?c example_world"
  let ?xs = "execs (trace_of example_world (snd ?run))"
  have h: "2 < length ?xs \<and> snd (snd (?xs ! 2)) = Failure ''step failed''"
    by (simp add: run_example steps_def)
  have rs: "resolved ?c = steps"
    by (simp add: resolved_def example_keys ebind_def)
  have g: "?run = (fst ?run, snd ?run)" by simp
  note th = fail_fast [OF g conjunct1 [OF h] conjunct2 [OF h]]
  from th have inv: "invoked example_world (snd ?run) = [''download'', ''basic_cleaning'', ''data_check'']"
    by (simp add: rs steps_def)
  from th have every: "count_list (invoked example_world (snd ?run)) (resolved ?c ! j)
      = (if j \<le> 2 then 1 else 0)" if "j < length (resolved ?c)" for j
    using that by blast
  from every [of 2] every [of 3]
  have "count_list (invoked example_world (snd ?run)) ''data_check'' = 1"
    and "count_list (invoked example_world (snd ?run)) ''train_val_test_split'' = 0"
    by (simp_all add: rs steps_def)
  then show ?thesis using th inv by simp
qed

text \<open>
  C5 (the code does otherwise). With \<^verbatim>\<open>train_random_forest\<close> selected, the trace of
  the run shows the file written before the call and its absolute path passed as
  \<^verbatim>\<open>rf_config\<close>; but the path is \<^verbatim>\<open>rf_config.json\<close> in the working directory of the
  process, which is not below the temporary directory, and after the run the temporary
  directory is gone while the file is still there.
\<close>

theorem rf_config_left_in_cwd:
  "fst (go example_builtins ex_ok ''/tmp/tmpx'' (example_config ''train_random_forest'')
          example_world) = Inr ()
   \<and> trace_of example_world (snd (go example_builtins ex_ok ''/tmp/tmpx''
          (example_config ''train_random_forest'') example_world))
      = [SetEnv ''WANDB_PROJECT'' ''nyc_airbnb'',
         SetEnv ''WANDB_RUN_GROUP'' ''development'',
         MkDTemp ''/tmp/tmpx'',
         Wrote ''/home/u/proj/rf_config.json'' Empty,
         Wrote ''/home/u/proj/rf_config.json''
           (Json [(''n_estimators'', VInt 100), (''max_depth'', VInt 15)]),
         Exec ''train_random_forest''
           \<lparr>uri = ''src/train_random_forest'', entry_point = ''main'', env_manager = ''conda'',
            parameters = [(''trainval_artifact'', VStr ''trainval_data.csv:latest''),
              (''val_size'', VFloat (1, - 2)), (''random_seed'', VInt 42),
              (''stratify_by'', VStr ''neighbourhood_group''), (''max_tfidf_features'', VInt 5),
              (''rf_config'', VStr ''/home/u/proj/rf_config.json''),
              (''output_artifact'', VStr ''random_forest_export'')]\<rparr>
           Success,
         Cleanup ''/tmp/tmpx'']
   \<and> \<not> under ''/tmp/tmpx'' ''/home/u/proj/rf_config.json''
   \<and> ''/tmp/tmpx'' \<notin> dirs (snd (go example_builtins ex_ok ''/tmp/tmpx''
           (example_config ''train_random_forest'') example_world))
   \<and> files (snd (go example_builtins ex_ok ''/tmp/tmpx''
           (example_config ''train_random_forest'') example_world)) ''/home/u/proj/rf_config.json''
      = Some (Json [(''n_estimators'', VInt 100), (''max_depth'', VInt 15)])"
  by (simp add: run_example)

text \<open>
  Against C6 as stated: a run whose step fails leaves \<^verbatim>\<open>WANDB_PROJECT\<close> set, where it
  was unset before the run.
\<close>

theorem environment_not_restored_counterexample:
  "fst (go example_builtins (ex_fail_at ''https://example.org/repo#components/get_data'')
          ''/tmp/tmpx'' (example_config ''download'') example_world)
     = Inl (ExecutionException ''step failed'')
   \<and> environ example_world ''WANDB_PROJECT'' = None
   \<and> environ (snd (go example_builtins (ex_fail_at ''https://example.org/repo#components/get_data'')
          ''/tmp/tmpx'' (example_config ''download'') example_world)) ''WANDB_PROJECT''
     = Some ''nyc_airbnb''"
  by (simp add: run_example)

text \<open>
  C6, amended. On every exit path of a run that got to the with statement, a step
  failure included, the temporary directory is removed with all below it; a run that
  did not get there raises and leaves directories and files as they were. The
  environment bindings are not restored: on every exit path the environment after the
  run is the environment before it with each binding that the run has set, and nothing
  else, changed: none when the first assignment raises, \<^verbatim>\<open>WANDB_PROJECT\<close> alone when the
  second raises, and both otherwise.
\<close>

theorem directory_removed_bindings_kept:
  assumes "go B ex tmp config w = (r, w')"
  shows "(enters_scope config
          \<longrightarrow> tmp \<notin> dirs w' \<and> (\<forall>q. under tmp q \<longrightarrow> q \<notin> dirs w' \<and> files w' q = None))
     \<and> (\<not> enters_scope config \<longrightarrow> isl r \<and> dirs w' = dirs w \<and> files w' = files w)
     \<and> (binding config ''project_name'' = None \<longrightarrow> environ w' = environ w)
     \<and> (\<forall>p. binding config ''project_name'' = Some p
            \<and> binding config ''experiment_name'' = None
          \<longrightarrow> environ w' = (environ w)(''WANDB_PROJECT'' \<mapsto> p))
     \<and> (\<forall>p g. binding config ''project_name'' = Some p
            \<and> binding config ''experiment_name'' = Some g
          \<longrightarrow> environ w' = (environ w)(''WANDB_PROJECT'' \<mapsto> p, ''WANDB_RUN_GROUP'' \<mapsto> g))"
proof -
  note env = go_environment [OF assms]
  have "environ w' = environ w" if "binding config ''project_name'' = None"
    using env that by simp
  moreover have "environ w' = (environ w)(''WANDB_PROJECT'' \<mapsto> p)"
    if "binding config ''project_name'' = Some p" "binding config ''experiment_name'' = None"
    for p using env that by simp
  moreover have "environ w' = (environ w)(''WANDB_PROJECT'' \<mapsto> p, ''WANDB_RUN_GROUP'' \<mapsto> g)"
    if "binding config ''project_name'' = Some p" "binding config ''experiment_name'' = Some g"
    for p g using env that by simp
  ultimately show ?thesis
    using go_removes [OF _ assms] go_early [OF _ assms] by blast
qed

text \<open>
  Witness of C6: the run of \<^verbatim>\<open>download\<close> with a failing executor, after which the
  directory is gone and both bindings are set; and the run of a configuration without
  \<^verbatim>\<open>experiment_name\<close>, after which \<^verbatim>\<open>WANDB_PROJECT\<close> alone is set.
\<close>

theorem directory_removed_bindings_kept_witness:
  "fst (go example_builtins (ex_fail_at ''https://example.org/repo#components/get_data'')
          ''/tmp/tmpx'' (example_config ''download'') example_world)
     = Inl (ExecutionException ''step failed'')
   \<and> ''/tmp/tmpx'' \<notin> dirs (snd (go example_builtins
          (ex_fail_at ''https://example.org/repo#components/get_data'')
          ''/tmp/tmpx'' (example_config ''download'') example_world))
   \<and> environ (snd (go example_builtins (ex_fail_at ''https://example.org/repo#components/get_data'')
          ''/tmp/tmpx'' (example_config ''download'') example_world))
     = [''WANDB_PROJECT'' \<mapsto> ''nyc_airbnb'', ''WANDB_RUN_GROUP'' \<mapsto> ''development'']
   \<and> environ (snd (go example_builtins ex_ok ''/tmp/tmpx''
          (VDict [(''main'', VDict [(''project_name'', VStr ''nyc_airbnb'')])]) example_world))
     = [''WANDB_PROJECT'' \<mapsto> ''nyc_airbnb'']"
proof -
  let ?c = "example_config ''download''"
  let ?run = "go example_builtins (ex_fail_at ''https://example.org/repo#components/get_data'')
          ''/tmp/tmpx'' ?c example_world"
  let ?d = "VDict [(''main'', VDict [(''project_name'', VStr ''nyc_airbnb'')])]"
  let ?half = "go example_builtins ex_ok ''/tmp/tmpx'' ?d example_world"
  have f: "fst ?run = Inl (ExecutionException ''step failed'')"
    by (simp add: run_example)
  have b: "binding ?c ''project_name'' = Some ''nyc_airbnb''"
    "binding ?c ''experiment_name'' = Some ''development''"
    by (simp_all add: bindingI example_keys)
  have h: "binding ?d ''project_name'' = Some ''nyc_airbnb''"
    "binding ?d ''experiment_name'' = None"
    by (simp_all add: binding_def cfg2_def ebind_def)
  have g: "?run = (fst ?run, snd ?run)" by simp
  from directory_removed_bindings_kept [OF g] example_enters [of "''download''"] b
  have "''/tmp/tmpx'' \<notin> dirs (snd ?run)"
    and "environ (snd ?run) = (environ example_world)(''WANDB_PROJECT'' \<mapsto> ''nyc_airbnb'',
      ''WANDB_RUN_GROUP'' \<mapsto> ''development'')"
    by blast+
  moreover have "?half = (fst ?half, snd ?half)" by simp
  from directory_removed_bindings_kept [OF this] h
  have "environ (snd ?half) = (environ example_world)(''WANDB_PROJECT'' \<mapsto> ''nyc_airbnb'')"
    by blast
  ultimately show ?thesis using f by (simp add: example_world_def)
qed

text \<open>
  Against C7 as stated: a run of a configuration without \<^verbatim>\<open>main.steps\<close> sets the two
  bindings and raises KeyError at the lookup of the selection; it never gets to the with
  statement, and its trace has no release of the directory.
\<close>

theorem scope_not_released_counterexample:
  "fst (go example_builtins ex_ok ''/tmp/tmpx''
          (VDict [(''main'', VDict [(''project_name'', VStr ''nyc_airbnb''),
             (''experiment_name'', VStr ''development'')])]) example_world)
     = Inl (KeyError ''steps'')
   \<and> trace_of example_world (snd (go example_builtins ex_ok ''/tmp/tmpx''
          (VDict [(''main'', VDict [(''project_name'', VStr ''nyc_airbnb''),
             (''experiment_name'', VStr ''development'')])]) example_world))
     = [SetEnv ''WANDB_PROJECT'' ''nyc_airbnb'', SetEnv ''WANDB_RUN_GROUP'' ''development'']
   \<and> count_list (trace_of example_world (snd (go example_builtins ex_ok ''/tmp/tmpx''
          (VDict [(''main'', VDict [(''project_name'', VStr ''nyc_airbnb''),
             (''experiment_name'', VStr ''development'')])]) example_world)))
        (Cleanup ''/tmp/tmpx'') = 0"
  by (simp add: go_def bind_def lift_def cfg2_def ebind_def trace_of_def example_world_def)

text \<open>
  C7, amended. A run that gets to the with statement makes the temporary directory
  once and releases it exactly once, whether the body returns or raises; after the run
  the directory and all below it are gone, and a second \<^verbatim>\<open>cleanup\<close> raises nothing and
  changes nothing but the log. A run that raises before the with statement makes no
  directory and releases nothing.
\<close>

theorem scope_released_once:
  assumes "go B ex tmp config w = (r, w')"
  shows "scope_events (trace_of w w')
       = (if enters_scope config then [MkDTemp tmp, Cleanup tmp] else [])
     \<and> (enters_scope config \<longrightarrow>
          count_list (trace_of w w') (MkDTemp tmp) = 1
          \<and> count_list (trace_of w w') (Cleanup tmp) = 1
          \<and> tmp \<notin> dirs w'
          \<and> (\<forall>q. under tmp q \<longrightarrow> q \<notin> dirs w' \<and> files w' q = None)
          \<and> cleanup tmp w' = (Inr (), w'\<lparr>log := log w' @ [Cleanup tmp]\<rparr>))
     \<and> (\<not> enters_scope config \<longrightarrow>
          isl r
          \<and> count_list (trace_of w w') (MkDTemp tmp) = 0
          \<and> count_list (trace_of w w') (Cleanup tmp) = 0
          \<and> dirs w' = dirs w)"
proof -
  note sc = go_trace(2) [OF assms]
  have "count_list (trace_of w w') (MkDTemp tmp) = 1
      \<and> count_list (trace_of w w') (Cleanup tmp) = 1" if "enters_scope config"
    using that sc by (simp add: count_scope_events [of "trace_of w w'"])
  moreover have "count_list (trace_of w w') (MkDTemp tmp) = 0
      \<and> count_list (trace_of w w') (Cleanup tmp) = 0" if "\<not> enters_scope config"
    using that sc by (simp add: count_scope_events [of "trace_of w w'"])
  moreover have "cleanup tmp w' = (Inr (), w'\<lparr>log := log w' @ [Cleanup tmp]\<rparr>)"
    if "enters_scope config"
    using go_removes [OF that assms] by (simp add: cleanup_gone)
  ultimately show ?thesis
    using sc go_removes [OF _ assms] go_early [OF _ assms] by blast
qed

text \<open>
  Witness of C7: one release on the path where \<^verbatim>\<open>download\<close> succeeds and one on the
  path where it fails, after which the directory is gone and a second release raises
  nothing.
\<close>

theorem scope_released_once_witness:
  "fst (go example_builtins ex_ok ''/tmp/tmpx'' (example_config ''download'') example_world)
     = Inr ()
   \<and> count_list (trace_of example_world (snd (go example_builtins ex_ok ''/tmp/tmpx''
        (example_config ''download'') example_world))) (Cleanup ''/tmp/tmpx'') = 1
   \<and> fst (go example_builtins (ex_fail_at ''https://example.org/repo#components/get_data'')
          ''/tmp/tmpx'' (example_config ''download'') example_world)
     = Inl (ExecutionException ''step failed'')
   \<and> count_list (trace_of example_world (snd (go example_builtins
        (ex_fail_at ''https://example.org/repo#components/get_data'') ''/tmp/tmpx''
        (example_config ''download'') example_world))) (Cleanup ''/tmp/tmpx'') = 1
   \<and> ''/tmp/tmpx'' \<notin> dirs (snd (go example_builtins
        (ex_fail_at ''https://example.org/repo#components/get_data'') ''/tmp/tmpx''
        (example_config ''download'') example_world))
   \<and> fst (cleanup ''/tmp/tmpx'' (snd (go example_builtins
        (ex_fail_at ''https://example.org/repo#components/get_data'') ''/tmp/tmpx''
        (example_config ''download'') example_world))) = Inr ()"
proof -
  let ?c = "example_config ''download''"
  let ?ok = "go example_builtins ex_ok ''/tmp/tmpx'' ?c example_world"
  let ?ko = "go example_builtins (ex_fail_at ''https://example.org/repo#components/get_data'')
          ''/tmp/tmpx'' ?c example_world"
  note en = example_enters [of "''download''"]
  have f: "fst ?ok = Inr ()" "fst ?ko = Inl (ExecutionException ''step failed'')"
    by (simp_all add: run_example)
  have "?ok = (fst ?ok, snd ?ok)" by simp
  from scope_released_once [OF this] en
  have a: "count_list (trace_of example_world (snd ?ok)) (Cleanup ''/tmp/tmpx'') = 1"
    by blast
  have "?ko = (fst ?ko, snd ?ko)" by simp
  from scope_released_once [OF this] en
  have b: "count_list (trace_of example_world (snd ?ko)) (Cleanup ''/tmp/tmpx'') = 1"
    and d: "''/tmp/tmpx'' \<notin> dirs (snd ?ko)"
    and c: "cleanup ''/tmp/tmpx'' (snd ?ko)
      = (Inr (), (snd ?ko)\<lparr>log := log (snd ?ko) @ [Cleanup ''/tmp/tmpx'']\<rparr>)"
    by blast+
  from f a b c d show ?thesis by simp
qed

text \<open>
  C8 (the code does otherwise). Two runs of one configuration and selection, with one
  executor and one temporary directory, started in different working directories pass
  different parameter mappings: the values of \<^verbatim>\<open>rf_config\<close> differ, and neither is a
  path below the temporary directory. Every other parameter is the same in both runs.
\<close>

theorem rf_config_differs_with_cwd:
  "map (\<lambda>(n, kvs). (n, map_of kvs ''rf_config''))
     (passed_parameters example_world (snd (go example_builtins ex_ok ''/tmp/tmpx''
        (example_config ''train_random_forest'') example_world)))
     = [(''train_random_forest'', Some (VStr ''/home/u/proj/rf_config.json''))]
   \<and> map (\<lambda>(n, kvs). (n, map_of kvs ''rf_config''))
     (passed_parameters (example_world\<lparr>cwd := ''/srv/job''\<rparr>)
        (snd (go example_builtins ex_ok ''/tmp/tmpx''
          (example_config ''train_random_forest'') (example_world\<lparr>cwd := ''/srv/job''\<rparr>))))
     = [(''train_random_forest'', Some (VStr ''/srv/job/rf_config.json''))]
   \<and> \<not> under ''/tmp/tmpx'' ''/home/u/proj/rf_config.json''
   \<and> \<not> under ''/tmp/tmpx'' ''/srv/job/rf_config.json''
   \<and> passed_parameters example_world (snd (go example_builtins ex_ok ''/tmp/tmpx''
        (example_config ''train_random_forest'') example_world))
     \<noteq> passed_parameters (example_world\<lparr>cwd := ''/srv/job''\<rparr>)
        (snd (go example_builtins ex_ok ''/tmp/tmpx''
          (example_config ''train_random_forest'') (example_world\<lparr>cwd := ''/srv/job''\<rparr>)))
   \<and> without_rf_config (passed_parameters example_world
        (snd (go example_builtins ex_ok ''/tmp/tmpx''
          (example_config ''train_random_forest'') example_world)))
     = without_rf_config (passed_parameters (example_world\<lparr>cwd := ''/srv/job''\<rparr>)
        (snd (go example_builtins ex_ok ''/tmp/tmpx''
          (example_config ''train_random_forest'') (example_world\<lparr>cwd := ''/srv/job''\<rparr>))))"
  by (simp add: run_example passed_parameters_def without_rf_config_def)

text \<open>
  C9. Whatever the selection, the configuration and the executor, no step's executor
  is called more than once in a run; a token that comes twice changes nothing.
\<close>

theorem step_invoked_at_most_once:
  "count_list (invoked w (snd (go B ex tmp config w))) n \<le> 1"
proof -
  obtain r w' where g: "go B ex tmp config w = (r, w')" by (cases "go B ex tmp config w")
  from invoked_prefix [OF g] obtain zs where "resolved config = invoked w w' @ zs"
    by (auto simp: prefix_def)
  with distinct_resolved [of config] have "distinct (invoked w w')"
    by (metis distinct_append)
  then show ?thesis using g by (simp add: count_list_distinct)
qed

text \<open>
  C10. A selection string other than \<^verbatim>\<open>"all"\<close> is read as a list of tokens separated
  by commas: the tokens hold no comma and, joined by commas, give the string back; the
  resolved set is the registry steps among them, and the run calls no other step. When
  no token is a registry step, which is so for the empty string, \<^verbatim>\<open>"All"\<close> and
  \<^verbatim>\<open>" all"\<close>, the resolved set is empty, and the run, when both names can be set in
  the environment, returns without an exception and calls no executor.
\<close>

theorem sentinel_is_exact:
  assumes "cfg2 config ''main'' ''project_name'' = Inr (VStr p)" and "CHR 0x00 \<notin> set p"
    and "cfg2 config ''main'' ''experiment_name'' = Inr (VStr g)" and "CHR 0x00 \<notin> set g"
    and "cfg2 config ''main'' ''steps'' = Inr (VStr sel)"
    and "sel \<noteq> ''all''"
    and "go B ex tmp config w = (r, w')"
  shows "active_steps (VStr sel) = Inr (str_split (CHR '','') sel)
     \<and> str_join '','' (str_split (CHR '','') sel) = sel
     \<and> (\<forall>t \<in> set (str_split (CHR '','') sel). CHR '','' \<notin> set t)
     \<and> resolved config = filter (\<lambda>n. n \<in> set (str_split (CHR '','') sel)) steps
     \<and> prefix (invoked w w') (resolved config)
     \<and> (set (str_split (CHR '','') sel) \<inter> set steps = {}
          \<longrightarrow> resolved config = [] \<and> r = Inr () \<and> invoked w w' = [])
     \<and> (sel \<in> {'''', ''All'', '' all''}
          \<longrightarrow> resolved config = [] \<and> r = Inr () \<and> invoked w w' = [])"
proof -
  let ?active = "str_split (CHR '','') sel"
  have a: "active_steps (VStr sel) = Inr ?active"
    using assms(6) by simp
  have rs: "resolved config = filter (\<lambda>n. n \<in> set ?active) steps"
    using assms(5) a by (rule resolved_eq)
  have none: "resolved config = [] \<and> r = Inr () \<and> invoked w w' = []"
    if disj: "set ?active \<inter> set steps = {}"
  proof -
    from disj have e: "resolved config = []"
      by (auto simp: rs filter_empty_conv)
    from go_entered [OF assms(1-5) a assms(7)] obtain wb where
      b: "pipeline_body B ex config ?active (mkdtemp tmp (entered w p g)) = (r, wb)"
      by blast
    from disj have "set steps \<inter> set ?active = {}" by blast
    from run_blocks_none [OF this] b have r: "r = Inr ()"
      by (simp add: pipeline_body_blocks)
    from invoked_prefix [OF assms(7)] e have "invoked w w' = []" by simp
    with e r show ?thesis by simp
  qed
  have three: "set ?active \<inter> set steps = {}" if "sel \<in> {'''', ''All'', '' all''}"
    using that by (auto simp: steps_def)
  have j: "str_join '','' ?active = sel"
    by (rule str_join_split)
  have s: "\<forall>t \<in> set ?active. CHR '','' \<notin> set t"
    using str_split_no_sep by blast
  from a j s rs none three invoked_prefix [OF assms(7)]
  show ?thesis by blast
qed

text \<open>
  Witness of C10: the empty selection string, and the string \<^verbatim>\<open>"All, all"\<close> with its two
  tokens \<^verbatim>\<open>"All"\<close> and \<^verbatim>\<open>" all"\<close>.
\<close>

theorem sentinel_is_exact_witness:
  "active_steps (VStr '''') = Inr [[]]
   \<and> resolved (example_config '''') = []
   \<and> fst (go example_builtins ex_ok ''/tmp/tmpx'' (example_config '''') example_world) = Inr ()
   \<and> invoked example_world
        (snd (go example_builtins ex_ok ''/tmp/tmpx'' (example_config '''') example_world)) = []
   \<and> active_steps (VStr ''All, all'') = Inr [''All'', '' all'']
   \<and> fst (go example_builtins ex_ok ''/tmp/tmpx'' (example_config ''All, all'') example_world)
     = Inr ()
   \<and> invoked example_world
        (snd (go example_builtins ex_ok ''/tmp/tmpx'' (example_config ''All, all'')
           example_world)) = []"
proof -
  let ?a = "go example_builtins ex_ok ''/tmp/tmpx'' (example_config '''') example_world"
  let ?b = "go example_builtins ex_ok ''/tmp/tmpx'' (example_config ''All, all'') example_world"
  have ne: "'''' \<noteq> ''all''" "''All, all'' \<noteq> ''all''" by simp_all
  have d: "set (str_split (CHR '','') ''All, all'') \<inter> set steps = {}"
    by (simp add: steps_def)
  have "?a = (fst ?a, snd ?a)" by simp
  note ta = sentinel_is_exact [OF example_keys ne(1) this]
  have "?b = (fst ?b, snd ?b)" by simp
  note tb = sentinel_is_exact [OF example_keys ne(2) this]
  from ta tb d show ?thesis by (simp add: steps_def)
qed

end
